theory Spec2Isabelle
  imports Main "HOL-Library.Multiset" "HOL-Library.Char_ord" "HOL-Library.List_Lexorder"
begin

section \<open>The relational store behind the metadata service\<close>

text \<open>
  The service \<^verbatim>\<open>src/app/src/services/metadata.js\<close> works on two tables: \<^verbatim>\<open>metadata\<close>
  (deduplicated key/value pairs, numbered by an identity column) and \<^verbatim>\<open>version_metadata\<close>
  (the join between a version and a metadata row).
\<close>

type_synonym uuid = string

type_synonym kv = "string \<times> string"

record metadata_row =
  id' :: nat
  key :: string
  value' :: string

record version_metadata_row =
  versionId :: uuid
  metadataId :: nat
  createdBy :: uuid

record db =
  metadata_table :: "metadata_row list"
  version_metadata_table :: "version_metadata_row list"
  metadata_id_seq :: nat

subsection \<open>Transactions, failures and the trace of what was sent to the database\<close>

text \<open>
  Every call of the service reaches the database through a transaction handle. A handle is a
  number; the world keeps, for each handle, the state of the transaction and the tables as
  the transaction sees them. The committed tables are \<open>durable\<close>. A statement and the opening
  of a transaction can each fail: \<open>faults\<close> is the schedule of these failures, one entry
  consumed by each attempt (\<open>True\<close> means that the attempt is rejected; an exhausted schedule
  means no further failure). The schedule stands for every reason a statement can be rejected
  for, a violated constraint of the schema included. A rollback of an open transaction is
  taken to succeed. \<open>trace\<close> records every attempt, and every commit and rollback.
\<close>

datatype statement =
    SelectMetadata
  | InsertMetadata
  | SelectVersionMetadata
  | DeleteVersionMetadata
  | SelectOrphanedMetadata
  | DeleteMetadata
  | InsertVersionMetadata

datatype event =
    Start nat
  | Commit nat
  | Rollback nat
  | Statement nat statement

datatype trx_status = Open | Committed | RolledBack | CommitRejected

record transaction =
  status :: trx_status
  tables :: db

record world =
  durable :: db
  transactions :: "nat \<Rightarrow> transaction option"
  next_trx :: nat
  faults :: "bool list"
  trace :: "event list"

datatype error = DbError | TransactionClosed | TypeError

text \<open>
  An \<^verbatim>\<open>async\<close> function is a function from the world to a result and the world it leaves: a
  rejected promise is \<open>Inl\<close>, a resolved one \<open>Inr\<close>. What was written before a rejection stays
  written.
\<close>

type_synonym 'a promise = "world \<Rightarrow> (error + 'a) \<times> world"

definition resolve :: "'a \<Rightarrow> 'a promise" where
  "resolve x w = (Inr x, w)"

definition reject :: "error \<Rightarrow> 'a promise" where
  "reject e w = (Inl e, w)"

definition await :: "'a promise \<Rightarrow> ('a \<Rightarrow> 'b promise) \<Rightarrow> 'b promise" where
  "await p k w = (case p w of (Inl e, w') \<Rightarrow> (Inl e, w') | (Inr x, w') \<Rightarrow> k x w')"

definition try_catch :: "'a promise \<Rightarrow> (error \<Rightarrow> 'a promise) \<Rightarrow> 'a promise" where
  "try_catch p h w = (case p w of (Inl e, w') \<Rightarrow> h e w' | (Inr x, w') \<Rightarrow> (Inr x, w'))"

definition attempt :: "event \<Rightarrow> unit promise" where
  "attempt ev w =
     (let w1 = w\<lparr>trace := trace w @ [ev]\<rparr> in
      case faults w1 of
        [] \<Rightarrow> (Inr (), w1)
      | f # fs \<Rightarrow> (if f then Inl DbError else Inr (), w1\<lparr>faults := fs\<rparr>))"

definition startTransaction :: "nat promise" where
  "startTransaction w =
     (let t = next_trx w in
      await (attempt (Start t))
        (\<lambda>_ w1. (Inr t, w1\<lparr>transactions := (transactions w1)(t \<mapsto> \<lparr>status = Open, tables = durable w1\<rparr>),
                            next_trx := Suc t\<rparr>)) w)"

text \<open>
  \<^verbatim>\<open>trx.commit()\<close> belongs to the query builder (knex), a dependency that is not part of the
  sources. The promise it returns is resolved whether the database accepts the \<^verbatim>\<open>COMMIT\<close> or
  not: a rejected \<^verbatim>\<open>COMMIT\<close> is caught inside the builder and settles the transaction's own
  promise, which the service never awaits. So \<^verbatim>\<open>await trx.commit()\<close> never throws, and what
  it does is one of two things: \<open>commit\<close> when the database accepts the \<^verbatim>\<open>COMMIT\<close>,
  \<open>commit_rejected\<close> when it rejects it (the transaction is over and nothing is committed).
\<close>

definition commit :: "nat \<Rightarrow> unit promise" where
  "commit trx w =
     (let w1 = w\<lparr>trace := trace w @ [Commit trx]\<rparr> in
      case transactions w1 trx of
        None \<Rightarrow> (Inr (), w1)
      | Some tx \<Rightarrow>
          if status tx = Open
          then (Inr (), w1\<lparr>durable := tables tx,
                            transactions := (transactions w1)(trx \<mapsto> tx\<lparr>status := Committed\<rparr>)\<rparr>)
          else (Inr (), w1))"

definition commit_rejected :: "nat \<Rightarrow> unit promise" where
  "commit_rejected trx w =
     (let w1 = w\<lparr>trace := trace w @ [Commit trx]\<rparr> in
      case transactions w1 trx of
        None \<Rightarrow> (Inr (), w1)
      | Some tx \<Rightarrow>
          if status tx = Open
          then (Inr (), w1\<lparr>transactions := (transactions w1)(trx \<mapsto> tx\<lparr>status := CommitRejected\<rparr>)\<rparr>)
          else (Inr (), w1))"

definition rollback :: "nat \<Rightarrow> unit promise" where
  "rollback trx w =
     (let w1 = w\<lparr>trace := trace w @ [Rollback trx]\<rparr> in
      case transactions w1 trx of
        None \<Rightarrow> (Inl TransactionClosed, w1)
      | Some tx \<Rightarrow>
          if status tx = Open
          then (Inr (), w1\<lparr>transactions := (transactions w1)(trx \<mapsto> tx\<lparr>status := RolledBack\<rparr>)\<rparr>)
          else (Inl TransactionClosed, w1))"

text \<open>
  \<open>query trx s run\<close> is \<^verbatim>\<open>Model.query(trx)\<close> followed by the builder calls that make the
  statement \<open>s\<close>; \<open>run\<close> is what the statement does to the tables of the transaction.
\<close>

definition query :: "nat \<Rightarrow> statement \<Rightarrow> (db \<Rightarrow> 'a \<times> db) \<Rightarrow> 'a promise" where
  "query trx s run =
     await (attempt (Statement trx s))
       (\<lambda>_ w. case transactions w trx of
                 None \<Rightarrow> (Inl TransactionClosed, w)
               | Some tx \<Rightarrow>
                   if status tx = Open
                   then (case run (tables tx) of
                           (x, d) \<Rightarrow> (Inr x, w\<lparr>transactions := (transactions w)(trx \<mapsto> tx\<lparr>tables := d\<rparr>)\<rparr>))
                   else (Inl TransactionClosed, w))"

subsection \<open>The statements of the service\<close>

text \<open>\<^verbatim>\<open>Metadata.query(trx).select()\<close>\<close>

definition select_metadata :: "db \<Rightarrow> metadata_row list \<times> db" where
  "select_metadata d = (metadata_table d, d)"

text \<open>\<^verbatim>\<open>Metadata.query(trx).insert(newMetadata).returning('*')\<close>: the identity column numbers
  the new rows.\<close>

fun insert_rows :: "nat \<Rightarrow> kv list \<Rightarrow> metadata_row list" where
  "insert_rows n [] = []"
| "insert_rows n ((k, v) # kvs) = \<lparr>id' = n, key = k, value' = v\<rparr> # insert_rows (Suc n) kvs"

definition insert_metadata :: "kv list \<Rightarrow> db \<Rightarrow> metadata_row list \<times> db" where
  "insert_metadata newMetadata d =
     (let rows = insert_rows (metadata_id_seq d) newMetadata in
      (rows, d\<lparr>metadata_table := metadata_table d @ rows,
               metadata_id_seq := metadata_id_seq d + length newMetadata\<rparr>))"

text \<open>\<^verbatim>\<open>VersionMetadata.query(trx).modify('filterVersionId', versionId)\<close>\<close>

definition filterVersionId :: "uuid \<Rightarrow> version_metadata_row list \<Rightarrow> version_metadata_row list" where
  "filterVersionId v rows = filter (\<lambda>r. versionId r = v) rows"

definition select_version_metadata :: "uuid \<Rightarrow> db \<Rightarrow> version_metadata_row list \<times> db" where
  "select_version_metadata v d = (filterVersionId v (version_metadata_table d), d)"

text \<open>\<^verbatim>\<open>VersionMetadata.query(trx).whereIn('metadataId', ids).modify('filterVersionId', versionId).delete()\<close>\<close>

definition delete_version_metadata :: "nat list \<Rightarrow> uuid \<Rightarrow> db \<Rightarrow> nat \<times> db" where
  "delete_version_metadata ids v d =
     (length (filter (\<lambda>r. metadataId r \<in> set ids \<and> versionId r = v) (version_metadata_table d)),
      d\<lparr>version_metadata_table :=
          filter (\<lambda>r. \<not> (metadataId r \<in> set ids \<and> versionId r = v)) (version_metadata_table d)\<rparr>)"

text \<open>\<^verbatim>\<open>Metadata.query(trx).withGraphJoined('versionMetadata').select('metadata.id')
  .whereNull('versionMetadata.metadataId')\<close>: the left join keeps the metadata rows that have
  no join row.\<close>

definition select_orphaned_metadata :: "db \<Rightarrow> nat list \<times> db" where
  "select_orphaned_metadata d =
     (map id' (filter (\<lambda>m. id' m \<notin> set (map metadataId (version_metadata_table d))) (metadata_table d)), d)"

text \<open>\<^verbatim>\<open>Metadata.query(trx).delete().whereIn('id', ids)\<close>\<close>

definition delete_metadata :: "nat list \<Rightarrow> db \<Rightarrow> nat \<times> db" where
  "delete_metadata ids d =
     (length (filter (\<lambda>m. id' m \<in> set ids) (metadata_table d)),
      d\<lparr>metadata_table := filter (\<lambda>m. id' m \<notin> set ids) (metadata_table d)\<rparr>)"

text \<open>\<^verbatim>\<open>VersionMetadata.query(trx).insert(rows)\<close>\<close>

definition insert_version_metadata :: "version_metadata_row list \<Rightarrow> db \<Rightarrow> version_metadata_row list \<times> db" where
  "insert_version_metadata rows d = (rows, d\<lparr>version_metadata_table := version_metadata_table d @ rows\<rparr>)"

subsection \<open>The service functions\<close>

text \<open>
  Modelled from the spec: \<^verbatim>\<open>getObjectsByKeyValue\<close> of \<^verbatim>\<open>components/utils\<close> is not among the
  source files; the specification resolves a pair to a row by exact match of key and value,
  and the service reads \<^verbatim>\<open>.id\<close> of what the helper returns, so it returns a row (or nothing).
\<close>

definition getObjectsByKeyValue :: "metadata_row list \<Rightarrow> string \<Rightarrow> string \<Rightarrow> metadata_row option" where
  "getObjectsByKeyValue array k v = find (\<lambda>obj. key obj = k \<and> value' obj = v) array"

text \<open>The \<^verbatim>\<open>forEach\<close> of \<^verbatim>\<open>createMetadata\<close>: the pairs found in the table go to
  \<^verbatim>\<open>existingMetadata\<close> (with the id of the row found), the others to \<^verbatim>\<open>newMetadata\<close>.\<close>

fun forEach_metadata :: "metadata_row list \<Rightarrow> kv list \<Rightarrow> metadata_row list \<times> kv list" where
  "forEach_metadata allMetadata [] = ([], [])"
| "forEach_metadata allMetadata ((k, v) # rest) =
     (case forEach_metadata allMetadata rest of
        (existingMetadata, newMetadata) \<Rightarrow>
          (case getObjectsByKeyValue allMetadata k v of
             Some obj \<Rightarrow> (\<lparr>id' = id' obj, key = k, value' = v\<rparr> # existingMetadata, newMetadata)
           | None \<Rightarrow> (existingMetadata, (k, v) # newMetadata)))"

text \<open>
  The three functions share one frame:
  \<^verbatim>\<open>try { trx = etrx ? etrx : await Metadata.startTransaction(); ...; if (!etrx) await trx.commit();
  return response } catch (err) { if (!etrx && trx) await trx.rollback(); throw err }\<close>.
  When the opening of the transaction is rejected, \<^verbatim>\<open>trx\<close> is still undefined and the handler
  only rethrows. \<open>transaction_frame\<close> is this frame, given what \<^verbatim>\<open>trx.commit()\<close> does;
  \<open>in_transaction\<close> is the frame where the database accepts the \<^verbatim>\<open>COMMIT\<close>, and the service
  functions below are written with it. The same call where the database rejects the
  \<^verbatim>\<open>COMMIT\<close> is \<open>transaction_frame commit_rejected\<close>.
\<close>

definition transaction_frame ::
  "(nat \<Rightarrow> unit promise) \<Rightarrow> nat option \<Rightarrow> (nat \<Rightarrow> 'a promise) \<Rightarrow> 'a promise" where
  "transaction_frame trx_commit etrx body =
     await (case etrx of Some t \<Rightarrow> resolve t | None \<Rightarrow> startTransaction)
       (\<lambda>trx.
          try_catch
            (await (body trx) (\<lambda>response.
             await (if etrx = None then trx_commit trx else resolve ()) (\<lambda>_.
             resolve response)))
            (\<lambda>err. await (if etrx = None then rollback trx else resolve ()) (\<lambda>_. reject err)))"

definition in_transaction :: "nat option \<Rightarrow> (nat \<Rightarrow> 'a promise) \<Rightarrow> 'a promise" where
  "in_transaction = transaction_frame commit"

definition createMetadata :: "kv list \<Rightarrow> nat option \<Rightarrow> metadata_row list promise" where
  "createMetadata metadata etrx =
     in_transaction etrx (\<lambda>trx.
       await (query trx SelectMetadata select_metadata) (\<lambda>allMetadata.
         case forEach_metadata allMetadata metadata of
           (existingMetadata, newMetadata) \<Rightarrow>
             if newMetadata \<noteq> []
             then await (query trx InsertMetadata (insert_metadata newMetadata)) (\<lambda>newMetadataRecords.
                    resolve (existingMetadata @ newMetadataRecords))
             else resolve existingMetadata))"

definition pruneOrphanedMetadata :: "nat option \<Rightarrow> nat promise" where
  "pruneOrphanedMetadata etrx =
     in_transaction etrx (\<lambda>trx.
       await (query trx SelectOrphanedMetadata select_orphaned_metadata) (\<lambda>deletedMetadataIds.
         query trx DeleteMetadata (delete_metadata deletedMetadataIds)))"

definition SYSTEM_USER :: uuid where
  "SYSTEM_USER = ''00000000-0000-0000-0000-000000000000''"

text \<open>
  The two filters of \<^verbatim>\<open>associateMetadata\<close>: the joins of the version whose metadata is not
  in the incoming set (\<^verbatim>\<open>dissociateMetadata\<close>), and the incoming rows not yet joined
  (\<^verbatim>\<open>newJoins\<close>). \<open>dissociate\<close> is the block under \<^verbatim>\<open>if (associatedMetadata.length)\<close>.
\<close>

definition dissociateMetadata_of :: "metadata_row list \<Rightarrow> version_metadata_row list \<Rightarrow> version_metadata_row list" where
  "dissociateMetadata_of dbMetadata associatedMetadata =
     filter (\<lambda>vm. \<not> list_ex (\<lambda>m. id' m = metadataId vm) dbMetadata) associatedMetadata"

definition dissociate :: "nat \<Rightarrow> uuid \<Rightarrow> metadata_row list \<Rightarrow> version_metadata_row list \<Rightarrow> unit promise" where
  "dissociate trx v dbMetadata associatedMetadata =
     (if associatedMetadata \<noteq> []
      then (let dissociateMetadata = dissociateMetadata_of dbMetadata associatedMetadata
            in if dissociateMetadata \<noteq> []
               then await (query trx DeleteVersionMetadata
                             (delete_version_metadata (map metadataId dissociateMetadata) v)) (\<lambda>_.
                    await (pruneOrphanedMetadata (Some trx)) (\<lambda>_.
                    resolve ()))
               else resolve ())
      else resolve ())"

definition newJoins_of :: "metadata_row list \<Rightarrow> version_metadata_row list \<Rightarrow> metadata_row list" where
  "newJoins_of dbMetadata associatedMetadata =
     (if associatedMetadata \<noteq> []
      then filter (\<lambda>m. \<not> list_ex (\<lambda>vm. metadataId vm = id' m) associatedMetadata) dbMetadata
      else dbMetadata)"

definition associateMetadata ::
  "uuid \<Rightarrow> kv list option \<Rightarrow> uuid option \<Rightarrow> nat option \<Rightarrow> version_metadata_row list promise" where
  "associateMetadata v metadata currentUserId etrx =
     in_transaction etrx (\<lambda>trx.
       case metadata of
         Some (m # ms) \<Rightarrow>
           await (createMetadata (m # ms) (Some trx)) (\<lambda>dbMetadata.
           await (query trx SelectVersionMetadata (select_version_metadata v)) (\<lambda>associatedMetadata.
           await (dissociate trx v dbMetadata associatedMetadata) (\<lambda>_.
             let newJoins = newJoins_of dbMetadata associatedMetadata in
             if newJoins \<noteq> []
             then query trx InsertVersionMetadata
                    (insert_version_metadata
                       (map (\<lambda>m. \<lparr>versionId = v, metadataId = id' m,
                                  createdBy = (case currentUserId of None \<Rightarrow> SYSTEM_USER | Some u \<Rightarrow> u)\<rparr>)
                            newJoins))
             else resolve [])))
       | _ \<Rightarrow> resolve [])"

subsection \<open>What a call sees and what it leaves\<close>

text \<open>
  \<open>tables_of w t\<close> are the tables as transaction \<open>t\<close> sees them; \<open>seen etrx w\<close> are the tables
  a call with the optional transaction \<open>etrx\<close> works on and leaves its result in: those of the
  caller's transaction, or the committed tables when the call opens its own transaction.
\<close>

definition is_open :: "world \<Rightarrow> nat \<Rightarrow> bool" where
  "is_open w t = (case transactions w t of Some tx \<Rightarrow> status tx = Open | None \<Rightarrow> False)"

definition tables_of :: "world \<Rightarrow> nat \<Rightarrow> db" where
  "tables_of w t = (case transactions w t of Some tx \<Rightarrow> tables tx | None \<Rightarrow> durable w)"

definition seen :: "nat option \<Rightarrow> world \<Rightarrow> db" where
  "seen etrx w = (case etrx of Some t \<Rightarrow> tables_of w t | None \<Rightarrow> durable w)"

text \<open>The metadata ids joined to a version, and whether a metadata row has a join at all.\<close>

definition joined :: "uuid \<Rightarrow> db \<Rightarrow> nat set" where
  "joined v d = set (map metadataId (filterVersionId v (version_metadata_table d)))"

definition referenced :: "db \<Rightarrow> metadata_row \<Rightarrow> bool" where
  "referenced d m \<longleftrightarrow> id' m \<in> set (map metadataId (version_metadata_table d))"

text \<open>
  The rows \<^verbatim>\<open>createMetadata\<close> resolves the incoming pairs to (lemma \<open>createMetadata_Inr\<close>): the
  rows found in the table, then the rows inserted for the pairs not found.
\<close>

definition dbMetadata_of :: "kv list \<Rightarrow> db \<Rightarrow> metadata_row list" where
  "dbMetadata_of md d =
     (case forEach_metadata (metadata_table d) md of
        (existingMetadata, newMetadata) \<Rightarrow> existingMetadata @ insert_rows (metadata_id_seq d) newMetadata)"

text \<open>
  \<open>statements_only t w w'\<close>: from \<open>w\<close> to \<open>w'\<close> only statements were sent, all on transaction
  \<open>t\<close>: nothing was committed, no transaction was opened, committed or rolled back, and no
  other transaction saw its tables change.
\<close>

definition statements_only :: "nat \<Rightarrow> world \<Rightarrow> world \<Rightarrow> bool" where
  "statements_only t w w' \<longleftrightarrow>
     durable w' = durable w \<and> next_trx w' = next_trx w \<and>
     (\<forall>u. map_option status (transactions w' u) = map_option status (transactions w u)) \<and>
     (\<forall>u. u \<noteq> t \<longrightarrow> transactions w' u = transactions w u) \<and>
     (\<exists>ss. trace w' = trace w @ map (Statement t) ss)"

definition frame :: "nat \<Rightarrow> 'a promise \<Rightarrow> bool" where
  "frame t p \<longleftrightarrow> (\<forall>w r w'. p w = (r, w') \<longrightarrow> statements_only t w w')"

definition is_statement :: "event \<Rightarrow> bool" where
  "is_statement e = (case e of Statement t s \<Rightarrow> True | _ \<Rightarrow> False)"

text \<open>
  How a failure shows in the schedule: between \<open>w\<close> and \<open>w'\<close> either no attempt was rejected,
  or one was and it was the last attempt made. \<open>propagates t w r w'\<close> says that the result \<open>r\<close>
  of a call on transaction \<open>t\<close> tells the truth about it: the call resolves only when no
  attempt was rejected; when an attempt was rejected the call stops there and rejects with
  that error; and the only other error is that of a statement sent on a transaction that is
  not open.
\<close>

definition rejected_attempt :: "world \<Rightarrow> world \<Rightarrow> bool" where
  "rejected_attempt w w' \<longleftrightarrow> (\<exists>n. faults w = replicate n False @ True # faults w')"

definition no_rejection :: "world \<Rightarrow> world \<Rightarrow> bool" where
  "no_rejection w w' \<longleftrightarrow> (\<exists>n. faults w = replicate n False @ faults w')"

definition propagates :: "nat \<Rightarrow> world \<Rightarrow> error + 'a \<Rightarrow> world \<Rightarrow> bool" where
  "propagates t w r w' \<longleftrightarrow>
     (case r of
        Inr x \<Rightarrow> no_rejection w w'
      | Inl e \<Rightarrow> e = DbError \<and> rejected_attempt w w' \<or>
                 e = TransactionClosed \<and> \<not> is_open w t \<and> no_rejection w w')"

definition honest :: "nat \<Rightarrow> 'a promise \<Rightarrow> bool" where
  "honest t p \<longleftrightarrow> (\<forall>w r w'. p w = (r, w') \<longrightarrow> propagates t w r w')"

text \<open>
  The discipline of the optional transaction, where the database accepts the \<^verbatim>\<open>COMMIT\<close>.
  With the caller's transaction, a call only sends statements on it, whether it resolves or
  rejects, and its result propagates every rejected statement. Without one, a call opens the
  transaction \<open>next_trx w\<close>. It resolves only when no attempt was rejected: then the trace is
  the opening, statements and the commit, and the committed tables are those of the
  transaction. When an attempt was rejected it rejects with that error, the committed tables
  are unchanged, and either the opening itself was rejected or the transaction was rolled
  back.
\<close>

definition joins_caller_transaction :: "(nat option \<Rightarrow> 'a promise) \<Rightarrow> bool" where
  "joins_caller_transaction f \<longleftrightarrow>
     (\<forall>t w r w'. f (Some t) w = (r, w') \<longrightarrow> statements_only t w w' \<and> propagates t w r w')"

definition owns_local_transaction :: "(nat option \<Rightarrow> 'a promise) \<Rightarrow> bool" where
  "owns_local_transaction f \<longleftrightarrow>
     (\<forall>w r w'. f None w = (r, w') \<longrightarrow>
        (let t = next_trx w in
         case r of
           Inr x \<Rightarrow>
             no_rejection w w' \<and>
             (\<exists>ss. trace w' = trace w @ Start t # map (Statement t) ss @ [Commit t]) \<and>
             map_option status (transactions w' t) = Some Committed \<and>
             durable w' = tables_of w' t
         | Inl e \<Rightarrow>
             e = DbError \<and> rejected_attempt w w' \<and> durable w' = durable w \<and>
             (trace w' = trace w @ [Start t] \<and> transactions w' = transactions w \<or>
              (\<exists>ss. trace w' = trace w @ Start t # map (Statement t) ss @ [Rollback t]) \<and>
              map_option status (transactions w' t) = Some RolledBack)))"

subsection \<open>Example tables\<close>

text \<open>One metadata row \<open>a = 1\<close>, joined to the versions \<open>v1\<close> and \<open>v2\<close>.\<close>

definition db0 :: db where
  "db0 = \<lparr>metadata_table = [\<lparr>id' = 1, key = ''a'', value' = ''1''\<rparr>],
          version_metadata_table = [\<lparr>versionId = ''v1'', metadataId = 1, createdBy = ''u''\<rparr>,
                                    \<lparr>versionId = ''v2'', metadataId = 1, createdBy = ''u''\<rparr>],
          metadata_id_seq = 2\<rparr>"

definition world0 :: world where
  "world0 = \<lparr>durable = db0, transactions = Map.empty, next_trx = 0, faults = [], trace = []\<rparr>"

definition world1 :: world where
  "world1 = \<lparr>durable = db0, transactions = [0 \<mapsto> \<lparr>status = Open, tables = db0\<rparr>], next_trx = 1,
             faults = [], trace = [Start 0]\<rparr>"

text \<open>A second metadata row \<open>b = 2\<close> that no version is joined to; and a world where the
  fourth attempt is rejected.\<close>

definition db_orphan :: db where
  "db_orphan = \<lparr>metadata_table = [\<lparr>id' = 1, key = ''a'', value' = ''1''\<rparr>,
                                  \<lparr>id' = 2, key = ''b'', value' = ''2''\<rparr>],
                version_metadata_table = [\<lparr>versionId = ''v2'', metadataId = 1, createdBy = ''u''\<rparr>],
                metadata_id_seq = 3\<rparr>"

definition world_orphan :: world where
  "world_orphan = \<lparr>durable = db_orphan, transactions = Map.empty, next_trx = 0, faults = [], trace = []\<rparr>"

definition world_fault :: world where
  "world_fault = \<lparr>durable = db0, transactions = Map.empty, next_trx = 0,
                  faults = [False, False, False, True], trace = []\<rparr>"

section \<open>The object catalog and \<^verbatim>\<open>fetchMetadataForObject\<close>\<close>

text \<open>
  The tables \<^verbatim>\<open>object\<close> and \<^verbatim>\<open>version\<close> with the columns the specification lists. A
  \<^verbatim>\<open>createdAt\<close> timestamp is a number.
\<close>

record object_row =
  object_id :: uuid
  bucketId :: uuid
  path :: string
  public :: bool
  active :: bool

record version_row =
  version_id :: uuid
  objectId :: uuid
  s3VersionId :: "string option"
  deleteMarker :: bool
  createdAt :: nat

record catalog =
  objects :: "object_row list"
  versions :: "version_row list"
  joins :: db

text \<open>
  The query modifiers \<^verbatim>\<open>filterIds\<close>, \<^verbatim>\<open>hasPermission\<close> (here always for the code
  \<^verbatim>\<open>READ\<close>) and \<^verbatim>\<open>filterKeyValue\<close> are declared with the database models, which are not
  among the source files: they are parameters, each the row predicate it adds to the query.
\<close>

record modifiers =
  filterIds :: "uuid list \<Rightarrow> object_row \<Rightarrow> bool"
  hasPermission :: "uuid option \<Rightarrow> object_row \<Rightarrow> bool"
  filterKeyValue :: "kv list option \<Rightarrow> metadata_row \<Rightarrow> bool"

record params =
  objId :: "uuid list"
  metadata :: "kv list option"
  userId :: "uuid option"

text \<open>
  The subquery on \<^verbatim>\<open>version\<close>:
  \<^verbatim>\<open>.orderBy(['version.objectId', { column: 'version.createdAt', order: 'desc' }])
  .where('deleteMarker', false).distinctOn('version.objectId')\<close>. SQL leaves the order of rows
  that agree on every sort key to the database, so the ordered rows are not a function of the
  table: \<open>orderBy_result vs xs\<close> holds of every list \<open>xs\<close> the database may produce, the rows
  that are no delete marker in an order sorted by \<^verbatim>\<open>objectId\<close>, then \<^verbatim>\<open>createdAt\<close> descending.
  \<^verbatim>\<open>DISTINCT ON\<close> keeps the first row of each run of equal \<^verbatim>\<open>objectId\<close>.
\<close>

definition version_order :: "version_row \<Rightarrow> version_row \<Rightarrow> bool" where
  "version_order a b \<longleftrightarrow>
     objectId a < objectId b \<or> (objectId a = objectId b \<and> createdAt b \<le> createdAt a)"

definition orderBy_result :: "version_row list \<Rightarrow> version_row list \<Rightarrow> bool" where
  "orderBy_result vs xs \<longleftrightarrow>
     mset xs = mset (filter (\<lambda>v. \<not> deleteMarker v) vs) \<and> sorted_wrt version_order xs"

fun distinctOn :: "version_row list \<Rightarrow> version_row list" where
  "distinctOn [] = []"
| "distinctOn [x] = [x]"
| "distinctOn (x # y # ys) =
     (if objectId x = objectId y then distinctOn (x # ys) else x # distinctOn (y # ys))"

text \<open>
  \<^verbatim>\<open>withGraphJoined('version.metadata')\<close> is a left join: every selected object comes with
  the list of its rows of the subquery (\<^verbatim>\<open>row.version\<close>, empty when there is none), each with
  the metadata joined to it.
\<close>

definition version_graph :: "version_row list \<Rightarrow> uuid \<Rightarrow> version_row list" where
  "version_graph xs oid = filter (\<lambda>v. objectId v = oid) (distinctOn xs)"

definition metadata_graph :: "db \<Rightarrow> (metadata_row \<Rightarrow> bool) \<Rightarrow> version_row \<Rightarrow> kv list" where
  "metadata_graph d keep v =
     map (\<lambda>m. (key m, value' m))
       (filter (\<lambda>m. keep m \<and> list_ex (\<lambda>j. versionId j = version_id v \<and> metadataId j = id' m)
                                    (version_metadata_table d))
          (metadata_table d))"

text \<open>\<^verbatim>\<open>result.map(row => ...)\<close> with a callback that may throw.\<close>

fun map_throwing :: "('a \<Rightarrow> error + 'b) \<Rightarrow> 'a list \<Rightarrow> error + 'b list" where
  "map_throwing f [] = Inr []"
| "map_throwing f (x # xs) =
     (case f x of
        Inl e \<Rightarrow> Inl e
      | Inr y \<Rightarrow> (case map_throwing f xs of Inl e \<Rightarrow> Inl e | Inr ys \<Rightarrow> Inr (y # ys)))"

text \<open>
  The callback: \<^verbatim>\<open>{ objectId: row.objectId, metadata: row.version[0].metadata }\<close>. On an empty
  \<^verbatim>\<open>row.version\<close>, \<^verbatim>\<open>row.version[0]\<close> is \<^verbatim>\<open>undefined\<close> and reading its property throws a
  \<^verbatim>\<open>TypeError\<close>.
\<close>

definition restructure :: "uuid \<times> (version_row \<times> kv list) list \<Rightarrow> error + uuid \<times> kv list" where
  "restructure row = (case snd row of [] \<Rightarrow> Inl TypeError | v # _ \<Rightarrow> Inr (fst row, snd v))"

text \<open>\<open>xs\<close> is the ordered subquery as the database produced it.\<close>

definition fetchMetadataForObject ::
  "modifiers \<Rightarrow> params \<Rightarrow> catalog \<Rightarrow> version_row list \<Rightarrow> error + (uuid \<times> kv list) list" where
  "fetchMetadataForObject mods ps c xs =
     map_throwing restructure
       (map (\<lambda>ob. (object_id ob,
                   map (\<lambda>v. (v, metadata_graph (joins c) (filterKeyValue mods (metadata ps)) v))
                       (version_graph xs (object_id ob))))
            (filter (\<lambda>ob. filterIds mods (objId ps) ob \<and> hasPermission mods (userId ps) ob) (objects c)))"

text \<open>Example rows: two versions of one object with the same timestamp, and a delete marker.\<close>

definition vA :: version_row where
  "vA = \<lparr>version_id = ''1'', objectId = ''o1'', s3VersionId = None, deleteMarker = False, createdAt = 5\<rparr>"

definition vB :: version_row where
  "vB = \<lparr>version_id = ''2'', objectId = ''o1'', s3VersionId = None, deleteMarker = False, createdAt = 5\<rparr>"

definition vDel :: version_row where
  "vDel = \<lparr>version_id = ''3'', objectId = ''o1'', s3VersionId = None, deleteMarker = True, createdAt = 9\<rparr>"

definition o1 :: object_row where
  "o1 = \<lparr>object_id = ''o1'', bucketId = ''b'', path = ''p'', public = False, active = True\<rparr>"

definition all_modifiers :: modifiers where
  "all_modifiers = \<lparr>filterIds = (\<lambda>ids ob. ids = [] \<or> object_id ob \<in> set ids),
                     hasPermission = (\<lambda>u ob. True),
                     filterKeyValue = (\<lambda>md m. True)\<rparr>"

definition deleted_catalog :: catalog where
  "deleted_catalog = \<lparr>objects = [o1], versions = [vDel],
      joins = \<lparr>metadata_table = [], version_metadata_table = [], metadata_id_seq = 1\<rparr>\<rparr>"

section \<open>The validator of \<^verbatim>\<open>searchPermissions\<close>\<close>

text \<open>
  A query string is a list of keys with their values; a key given several times has several
  values. The Joi schemas \<^verbatim>\<open>type.truthy\<close>, \<^verbatim>\<open>type.uuidv4\<close>, \<^verbatim>\<open>scheme.guid\<close> and
  \<^verbatim>\<open>scheme.permCode\<close> come from \<^verbatim>\<open>./common\<close>, which is not among the source files, and are
  parameters: \<open>truthy\<close> gives the boolean a value converts to (\<open>None\<close> when the value is
  rejected), \<open>uuidv4\<close> is the test of one string, \<open>guid\<close> and \<open>permCode\<close> are tests of a value
  that is present.
\<close>

datatype qvalue = Single string | Many "string list"

type_synonym query = "(string \<times> qvalue) list"

record common =
  truthy :: "qvalue \<Rightarrow> bool option"
  uuidv4 :: "string \<Rightarrow> bool"
  guid :: "qvalue \<Rightarrow> bool"
  permCode :: "qvalue \<Rightarrow> bool"

datatype validation_error = ValidationError string

text \<open>A key whose schema is not marked \<^verbatim>\<open>.required()\<close> may be absent.\<close>

definition optional :: "(qvalue \<Rightarrow> bool) \<Rightarrow> qvalue option \<Rightarrow> bool" where
  "optional schema x = (case x of None \<Rightarrow> True | Some v \<Rightarrow> schema v)"

definition required :: "(qvalue \<Rightarrow> bool) \<Rightarrow> qvalue option \<Rightarrow> bool" where
  "required schema x = (case x of None \<Rightarrow> False | Some v \<Rightarrow> schema v)"

text \<open>
  Modelled from the spec: \<^verbatim>\<open>type.uuidv4\<close> is declared in \<^verbatim>\<open>./common\<close>; the validator
  overrides its message \<^verbatim>\<open>string.guid\<close>, the rule of a Joi string schema, and the specification
  asks for exactly one user id: a single string that passes the test.
\<close>

definition type_uuidv4 :: "common \<Rightarrow> qvalue \<Rightarrow> bool" where
  "type_uuidv4 c v = (case v of Single s \<Rightarrow> uuidv4 c s | Many ss \<Rightarrow> False)"

text \<open>
  \<^verbatim>\<open>Joi.alternatives().conditional('objectPerms', { is: true, then: type.uuidv4.required(),
  otherwise: scheme.guid })\<close>: the condition reads the converted value of \<^verbatim>\<open>objectPerms\<close>.
\<close>

definition objectPerms_is_true :: "common \<Rightarrow> query \<Rightarrow> bool" where
  "objectPerms_is_true c q =
     (case map_of q ''objectPerms'' of None \<Rightarrow> False | Some v \<Rightarrow> truthy c v = Some True)"

definition userId_schema :: "common \<Rightarrow> query \<Rightarrow> qvalue option \<Rightarrow> bool" where
  "userId_schema c q =
     (if objectPerms_is_true c q then required (type_uuidv4 c) else optional (guid c))"

text \<open>
  \<^verbatim>\<open>Joi.object({ bucketId, objectPerms, permCode, userId })\<close>: no other key is allowed, and
  every key present passes its schema.
\<close>

definition other_keys_valid :: "common \<Rightarrow> query \<Rightarrow> bool" where
  "other_keys_valid c q \<longleftrightarrow>
     list_all (\<lambda>k. k \<in> set [''bucketId'', ''objectPerms'', ''permCode'', ''userId'']) (map fst q) \<and>
     optional (guid c) (map_of q ''bucketId'') \<and>
     optional (\<lambda>v. truthy c v \<noteq> None) (map_of q ''objectPerms'') \<and>
     optional (permCode c) (map_of q ''permCode'')"

definition searchPermissions_query :: "common \<Rightarrow> query \<Rightarrow> validation_error + unit" where
  "searchPermissions_query c q =
     (if \<not> list_all (\<lambda>k. k \<in> set [''bucketId'', ''objectPerms'', ''permCode'', ''userId'']) (map fst q)
        then Inl (ValidationError ''object.unknown'')
      else if \<not> optional (guid c) (map_of q ''bucketId'') then Inl (ValidationError ''bucketId'')
      else if \<not> optional (\<lambda>v. truthy c v \<noteq> None) (map_of q ''objectPerms'')
        then Inl (ValidationError ''objectPerms'')
      else if \<not> optional (permCode c) (map_of q ''permCode'') then Inl (ValidationError ''permCode'')
      else if \<not> userId_schema c q (map_of q ''userId'') then Inl (ValidationError ''userId'')
      else Inr ())"

definition common0 :: common where
  "common0 = \<lparr>truthy = (\<lambda>v. if v = Single ''true'' then Some True
                              else if v = Single ''false'' then Some False else None),
              uuidv4 = (\<lambda>s. length s = 36),
              guid = (\<lambda>v. case v of Single s \<Rightarrow> length s = 36 | Many ss \<Rightarrow> list_all (\<lambda>s. length s = 36) ss),
              permCode = (\<lambda>v. True)\<rparr>"

section \<open>The storage service\<close>












section \<open>The user service\<close>

text \<open>
  \<^verbatim>\<open>services/user\<close> is not among the source files; its unit tests are. The functions below
  are modelled from the specification, with the data of the tests. \<open>user_calls\<close> records the
  calls the tests spy on. The id of a new user is generated (\<open>newId\<close>).
\<close>

record user_fields =
  identityId :: "string option"
  username :: "string option"
  firstName :: "string option"
  fullName :: "string option"
  lastName :: "string option"
  email :: "string option"
  idp :: "string option"

record user_row = user_fields +
  userId' :: uuid

record token =
  sub :: "string option"
  identity_provider_identity :: "string option"
  preferred_username :: "string option"
  given_name :: "string option"
  family_name :: "string option"
  name :: "string option"
  token_email :: "string option"
  identity_provider :: "string option"

datatype user_call =
    ReadIdp string
  | CreateIdp string
  | InsertUser uuid
  | FindByIdentityId "string option"
  | ReadUser uuid
  | PatchUser uuid
  | CreateUser
  | UpdateUser uuid

record directory =
  identity_providers :: "string list"
  users :: "user_row list"
  user_calls :: "user_call list"

datatype user_error = NotFoundError

text \<open>
  Modelled from the spec: \<^verbatim>\<open>_tokenToUser\<close> of \<^verbatim>\<open>services/user\<close> maps an external-identity
  claim set to the fields of a local user, as its unit test pairs them.
\<close>

definition tokenToUser :: "token \<Rightarrow> user_fields" where
  "tokenToUser t =
     \<lparr>identityId = sub t,
      username = (case identity_provider_identity t of Some u \<Rightarrow> Some u | None \<Rightarrow> preferred_username t),
      firstName = given_name t, fullName = name t, lastName = family_name t,
      email = token_email t, idp = identity_provider t\<rparr>"

definition called :: "user_call \<Rightarrow> directory \<Rightarrow> directory" where
  "called c d = d\<lparr>user_calls := user_calls d @ [c]\<rparr>"

text \<open>
  Modelled from the spec: \<^verbatim>\<open>readIdp\<close> of \<^verbatim>\<open>services/user\<close> looks an idp code up among the
  IdentityProvider rows.
\<close>

definition readIdp :: "string \<Rightarrow> directory \<Rightarrow> bool \<times> directory" where
  "readIdp code d = (code \<in> set (identity_providers d), called (ReadIdp code) d)"

text \<open>
  Modelled from the spec: \<^verbatim>\<open>createIdp\<close> of \<^verbatim>\<open>services/user\<close> inserts the
  IdentityProvider row of an idp code.
\<close>

definition createIdp :: "string \<Rightarrow> directory \<Rightarrow> directory" where
  "createIdp code d = (called (CreateIdp code) d)\<lparr>identity_providers := identity_providers d @ [code]\<rparr>"

text \<open>
  Modelled from the spec: the step of \<^verbatim>\<open>createUser\<close> and \<^verbatim>\<open>updateUser\<close> that creates the
  IdentityProvider row on first sight of an idp code; a user without idp bypasses it.
\<close>

definition ensureIdp :: "string option \<Rightarrow> directory \<Rightarrow> directory" where
  "ensureIdp i d =
     (case i of
        None \<Rightarrow> d
      | Some code \<Rightarrow> (case readIdp code d of (found, d1) \<Rightarrow> if found then d1 else createIdp code d1))"

definition with_userId :: "uuid \<Rightarrow> user_fields \<Rightarrow> user_row" where
  "with_userId u f = user_fields.extend f (user_row.fields u)"

text \<open>
  Modelled from the spec: \<^verbatim>\<open>createUser\<close> of \<^verbatim>\<open>services/user\<close> lazily creates the
  IdentityProvider row if the idp code is unseen, before inserting the user.
\<close>

definition createUser :: "uuid \<Rightarrow> user_fields \<Rightarrow> directory \<Rightarrow> user_row \<times> directory" where
  "createUser newId data d =
     (let d1 = ensureIdp (idp data) (called CreateUser d);
          row = with_userId newId data
      in (row, (called (InsertUser newId) d1)\<lparr>users := users d1 @ [row]\<rparr>))"

text \<open>
  Modelled from the spec: \<^verbatim>\<open>readUser\<close> of \<^verbatim>\<open>services/user\<close> fails with
  \<^verbatim>\<open>NotFoundError\<close> on an unknown id.
\<close>

definition readUser :: "uuid \<Rightarrow> directory \<Rightarrow> (user_error + user_row) \<times> directory" where
  "readUser u d =
     (case find (\<lambda>r. userId' r = u) (users d) of
        None \<Rightarrow> (Inl NotFoundError, called (ReadUser u) d)
      | Some r \<Rightarrow> (Inr r, called (ReadUser u) d))"

text \<open>
  Modelled from the spec: \<^verbatim>\<open>updateUser\<close> of \<^verbatim>\<open>services/user\<close> patches the stored user
  when a mapped field differs and is a no-op when nothing differs.
\<close>

definition updateUser :: "uuid \<Rightarrow> user_fields \<Rightarrow> directory \<Rightarrow> (user_error + user_row) \<times> directory" where
  "updateUser u data d =
     (case readUser u (called (UpdateUser u) d) of
        (Inl e, d1) \<Rightarrow> (Inl e, d1)
      | (Inr oldUser, d1) \<Rightarrow>
          if user_fields.truncate oldUser \<noteq> data
          then (let d2 = ensureIdp (idp data) d1;
                    row = with_userId u data
                in (Inr row, (called (PatchUser u) d2)\<lparr>users := map (\<lambda>r. if userId' r = u then row else r) (users d2)\<rparr>))
          else (Inr oldUser, d1))"

text \<open>
  Modelled from the spec: \<^verbatim>\<open>login\<close> of \<^verbatim>\<open>services/user\<close> maps the claims to a user and
  looks it up by \<^verbatim>\<open>identityId\<close>; if absent \<^verbatim>\<open>createUser\<close>, if present \<^verbatim>\<open>updateUser\<close>.
\<close>

definition login :: "uuid \<Rightarrow> token \<Rightarrow> directory \<Rightarrow> (user_error + user_row) \<times> directory" where
  "login newId t d =
     (let newUser = tokenToUser t;
          d1 = called (FindByIdentityId (identityId newUser)) d
      in case find (\<lambda>r. identityId r = identityId newUser) (users d1) of
           None \<Rightarrow> (case createUser newId newUser d1 of (row, d2) \<Rightarrow> (Inr row, d2))
         | Some oldUser \<Rightarrow> updateUser (userId' oldUser) newUser d1)"

definition jsmith :: user_fields where
  "jsmith = \<lparr>identityId = Some ''0'', username = Some ''jsmith:idir'', firstName = Some ''john'',
             fullName = Some ''john smith'', lastName = Some ''smith'', email = Some ''jsmith@email.com'',
             idp = Some ''idir''\<rparr>"

definition jsmith_token :: token where
  "jsmith_token = \<lparr>sub = Some ''0'', identity_provider_identity = Some ''jsmith:idir'',
      preferred_username = Some ''john@email.com'', given_name = Some ''john'', family_name = Some ''smith'',
      name = Some ''john smith'', token_email = Some ''jsmith@email.com'', identity_provider = Some ''idir''\<rparr>"

definition empty_directory :: directory where
  "empty_directory = \<lparr>identity_providers = [], users = [], user_calls = []\<rparr>"

definition is_update :: "user_call \<Rightarrow> bool" where
  "is_update c = (case c of UpdateUser u \<Rightarrow> True | _ \<Rightarrow> False)"

definition new_calls :: "directory \<Rightarrow> directory \<Rightarrow> user_call list" where
  "new_calls d d' = drop (length (user_calls d)) (user_calls d')"

text \<open>Example values.\<close>

definition uuid1 :: string where
  "uuid1 = ''11111111-1111-4111-8111-111111111111''"


definition jsmith_row :: user_row where
  "jsmith_row = with_userId ''u1'' jsmith"

definition jsmith_directory :: directory where
  "jsmith_directory = \<lparr>identity_providers = [''idir''], users = [jsmith_row], user_calls = []\<rparr>"

section \<open>Properties of the metadata service\<close>

lemma in_transaction_eq:
  "in_transaction etrx body =
     await (case etrx of Some t \<Rightarrow> resolve t | None \<Rightarrow> startTransaction)
       (\<lambda>trx.
          try_catch
            (await (body trx) (\<lambda>response.
             await (if etrx = None then commit trx else resolve ()) (\<lambda>_.
             resolve response)))
            (\<lambda>err. await (if etrx = None then rollback trx else resolve ()) (\<lambda>_. reject err)))"
  by (simp add: in_transaction_def transaction_frame_def)

lemma statements_only_refl: "statements_only t w w"
  unfolding statements_only_def by (auto intro: exI[of _ "[]"])

lemma statements_only_trans:
  assumes "statements_only t w w1" "statements_only t w1 w2"
  shows "statements_only t w w2"
proof -
  from assms obtain ss1 ss2 where "trace w1 = trace w @ map (Statement t) ss1"
    "trace w2 = trace w1 @ map (Statement t) ss2"
    unfolding statements_only_def by blast
  then have "trace w2 = trace w @ map (Statement t) (ss1 @ ss2)" by simp
  then have "\<exists>ss. trace w2 = trace w @ map (Statement t) ss" by blast
  with assms show ?thesis unfolding statements_only_def by simp
qed

lemma frame_resolve: "frame t (resolve x)"
  by (simp add: frame_def resolve_def statements_only_refl)

lemma frame_reject: "frame t (reject e)"
  by (simp add: frame_def reject_def statements_only_refl)

lemma frame_await:
  assumes "frame t p" "\<And>x. frame t (k x)"
  shows "frame t (await p k)"
  unfolding frame_def
proof (intro allI impI)
  fix w r w' assume run: "await p k w = (r, w')"
  obtain r1 w1 where p: "p w = (r1, w1)" by (cases "p w")
  with assms(1) have s1: "statements_only t w w1" by (simp add: frame_def)
  show "statements_only t w w'"
  proof (cases r1)
    case (Inl e)
    with run p have "w' = w1" by (simp add: await_def)
    with s1 show ?thesis by simp
  next
    case (Inr x)
    with run p have "k x w1 = (r, w')" by (simp add: await_def)
    with assms(2) have "statements_only t w1 w'" by (simp add: frame_def)
    with s1 show ?thesis by (rule statements_only_trans)
  qed
qed

lemma frame_try_catch:
  assumes "frame t p" "\<And>e. frame t (h e)"
  shows "frame t (try_catch p h)"
  unfolding frame_def
proof (intro allI impI)
  fix w r w' assume run: "try_catch p h w = (r, w')"
  obtain r1 w1 where p: "p w = (r1, w1)" by (cases "p w")
  with assms(1) have s1: "statements_only t w w1" by (simp add: frame_def)
  show "statements_only t w w'"
  proof (cases r1)
    case (Inr x)
    with run p have "w' = w1" by (simp add: try_catch_def)
    with s1 show ?thesis by simp
  next
    case (Inl e)
    with run p have "h e w1 = (r, w')" by (simp add: try_catch_def)
    with assms(2) have "statements_only t w1 w'" by (simp add: frame_def)
    with s1 show ?thesis by (rule statements_only_trans)
  qed
qed

lemma await_resolve: "await (resolve x) k = k x"
  by (rule ext) (simp add: await_def resolve_def)

lemma attempt_cases:
  assumes "attempt ev w = (r, w')"
  shows "trace w' = trace w @ [ev] \<and> durable w' = durable w \<and>
         transactions w' = transactions w \<and> next_trx w' = next_trx w"
  using assms by (auto simp: attempt_def Let_def split: list.splits if_splits)

lemma frame_query: "frame t (query t s run)"
  unfolding frame_def
proof (intro allI impI)
  fix w r w' assume run: "query t s run w = (r, w')"
  obtain r1 w1 where a: "attempt (Statement t s) w = (r1, w1)" by (cases "attempt (Statement t s) w")
  then have w1: "trace w1 = trace w @ [Statement t s] \<and> durable w1 = durable w \<and>
         transactions w1 = transactions w \<and> next_trx w1 = next_trx w"
    by (rule attempt_cases)
  from run a w1 show "statements_only t w w'"
    unfolding statements_only_def query_def await_def
    by (auto split: sum.splits option.splits if_splits prod.splits intro!: exI[of _ "[s]"])
qed

lemma frame_in_transaction:
  assumes "frame t (body t)"
  shows "frame t (in_transaction (Some t) body)"
  unfolding in_transaction_eq
  by (simp add: await_resolve assms frame_await frame_try_catch frame_resolve frame_reject)

lemma frame_createMetadata: "frame t (createMetadata md (Some t))"
  unfolding createMetadata_def
  by (intro frame_in_transaction frame_await frame_query)
     (auto split: prod.splits intro!: frame_await frame_query frame_resolve)

lemma frame_pruneOrphanedMetadata: "frame t (pruneOrphanedMetadata (Some t))"
  unfolding pruneOrphanedMetadata_def
  by (intro frame_in_transaction frame_await frame_query)

lemma frame_dissociate: "frame t (dissociate t v D A)"
  unfolding dissociate_def Let_def
  by (auto intro!: frame_await frame_query frame_resolve frame_pruneOrphanedMetadata)

lemma frame_associate_body: "frame t (associateMetadata v md u (Some t))"
  unfolding associateMetadata_def Let_def
  by (intro frame_in_transaction)
     (auto split: option.splits list.splits
           intro!: frame_await frame_query frame_resolve frame_createMetadata frame_dissociate)

lemma in_transaction_Some: "in_transaction (Some t) body = body t"
  by (rule ext)
     (simp add: in_transaction_eq await_def resolve_def reject_def try_catch_def
           split: prod.splits sum.splits)

lemma await_Inr:
  assumes "await p k w = (Inr y, w'')"
  obtains x w' where "p w = (Inr x, w')" "k x w' = (Inr y, w'')"
  using assms by (auto simp: await_def split: prod.splits sum.splits)

lemma query_Inr:
  assumes "query t s run w = (Inr x, w')"
  shows "is_open w t \<and> x = fst (run (tables_of w t)) \<and>
         tables_of w' t = snd (run (tables_of w t)) \<and> is_open w' t"
proof -
  obtain r1 w1 where a: "attempt (Statement t s) w = (r1, w1)"
    by (cases "attempt (Statement t s) w")
  then have "transactions w1 = transactions w" using attempt_cases by blast
  with assms a show ?thesis
    by (auto simp: query_def await_def is_open_def tables_of_def
             split: sum.splits option.splits if_splits prod.splits)
qed

lemma resolve_Inr: "resolve x w = (Inr y, w') \<Longrightarrow> y = x \<and> w' = w"
  by (simp add: resolve_def)

lemma createMetadata_Inr:
  assumes "createMetadata md (Some t) w = (Inr D, w')"
  shows "D = dbMetadata_of md (tables_of w t) \<and> is_open w' t \<and>
         version_metadata_table (tables_of w' t) = version_metadata_table (tables_of w t) \<and>
         (\<exists>rows. metadata_table (tables_of w' t) = metadata_table (tables_of w t) @ rows)"
proof -
  let ?d = "tables_of w t"
  obtain ex nw where fe: "forEach_metadata (metadata_table ?d) md = (ex, nw)"
    by (cases "forEach_metadata (metadata_table ?d) md")
  from assms have run: "await (query t SelectMetadata select_metadata) (\<lambda>allMetadata.
         case forEach_metadata allMetadata md of
           (existingMetadata, newMetadata) \<Rightarrow>
             if newMetadata \<noteq> []
             then await (query t InsertMetadata (insert_metadata newMetadata)) (\<lambda>newMetadataRecords.
                    resolve (existingMetadata @ newMetadataRecords))
             else resolve existingMetadata) w = (Inr D, w')"
    by (simp add: createMetadata_def in_transaction_Some)
  then obtain all w1 where q1: "query t SelectMetadata select_metadata w = (Inr all, w1)"
    and rest: "(case forEach_metadata all md of
           (existingMetadata, newMetadata) \<Rightarrow>
             if newMetadata \<noteq> []
             then await (query t InsertMetadata (insert_metadata newMetadata)) (\<lambda>newMetadataRecords.
                    resolve (existingMetadata @ newMetadataRecords))
             else resolve existingMetadata) w1 = (Inr D, w')"
    by (rule await_Inr)
  from query_Inr[OF q1] have all: "all = metadata_table ?d" and t1: "tables_of w1 t = ?d"
    and o1: "is_open w1 t"
    by (simp_all add: select_metadata_def)
  show ?thesis
  proof (cases "nw = []")
    case True
    with rest fe all have "D = ex" "w' = w1" by (simp_all add: resolve_def)
    with True fe t1 o1 show ?thesis by (simp add: dbMetadata_of_def)
  next
    case False
    with rest fe all have "await (query t InsertMetadata (insert_metadata nw)) (\<lambda>newMetadataRecords.
                    resolve (ex @ newMetadataRecords)) w1 = (Inr D, w')" by simp
    then obtain recs w2 where q2: "query t InsertMetadata (insert_metadata nw) w1 = (Inr recs, w2)"
      and r2: "resolve (ex @ recs) w2 = (Inr D, w')" by (rule await_Inr)
    from query_Inr[OF q2] t1 have "recs = insert_rows (metadata_id_seq ?d) nw"
      "tables_of w2 t = snd (insert_metadata nw ?d)" "is_open w2 t"
      by (simp_all add: insert_metadata_def Let_def)
    with r2 fe show ?thesis by (auto simp: resolve_def dbMetadata_of_def insert_metadata_def Let_def)
  qed
qed

lemma filter_orphans:
  "filter (\<lambda>m. id' m \<notin> set (map id' (filter (\<lambda>m. \<not> referenced d m) ms))) ms = filter (referenced d) ms"
proof (rule filter_cong[OF refl])
  fix m assume "m \<in> set ms"
  then show "(id' m \<notin> set (map id' (filter (\<lambda>m. \<not> referenced d m) ms))) = referenced d m"
    by (auto simp: referenced_def)
qed

lemma pruneOrphanedMetadata_Inr:
  assumes "pruneOrphanedMetadata (Some t) w = (Inr n, w')"
  shows "metadata_table (tables_of w' t) = filter (referenced (tables_of w t)) (metadata_table (tables_of w t)) \<and>
         version_metadata_table (tables_of w' t) = version_metadata_table (tables_of w t) \<and>
         n = length (filter (\<lambda>m. \<not> referenced (tables_of w t) m) (metadata_table (tables_of w t))) \<and>
         is_open w' t"
proof -
  let ?d = "tables_of w t"
  from assms have "await (query t SelectOrphanedMetadata select_orphaned_metadata) (\<lambda>deletedMetadataIds.
         query t DeleteMetadata (delete_metadata deletedMetadataIds)) w = (Inr n, w')"
    by (simp add: pruneOrphanedMetadata_def in_transaction_Some)
  then obtain ids w1 where q1: "query t SelectOrphanedMetadata select_orphaned_metadata w = (Inr ids, w1)"
    and q2: "query t DeleteMetadata (delete_metadata ids) w1 = (Inr n, w')"
    by (rule await_Inr)
  from query_Inr[OF q1] have ids: "ids = map id' (filter (\<lambda>m. \<not> referenced ?d m) (metadata_table ?d))"
    and t1: "tables_of w1 t = ?d"
    by (simp_all add: select_orphaned_metadata_def referenced_def)
  have len: "length (filter (\<lambda>m. id' m \<in> set ids) (metadata_table ?d))
      = length (filter (\<lambda>m. \<not> referenced ?d m) (metadata_table ?d))"
  proof -
    have "filter (\<lambda>m. id' m \<in> set ids) (metadata_table ?d) = filter (\<lambda>m. \<not> referenced ?d m) (metadata_table ?d)"
      unfolding ids by (rule filter_cong[OF refl]) (force simp: referenced_def)
    then show ?thesis by simp
  qed
  from query_Inr[OF q2] t1 have "n = fst (delete_metadata ids ?d)"
    "tables_of w' t = snd (delete_metadata ids ?d)" "is_open w' t" by simp_all
  with len filter_orphans[of ?d "metadata_table ?d"] show ?thesis
    by (simp add: delete_metadata_def ids)
qed

lemma referenced_cong:
  "version_metadata_table d = version_metadata_table d' \<Longrightarrow> referenced d = referenced d'"
  by (rule ext) (simp add: referenced_def)

lemma dissociate_Inr:
  assumes "dissociate t v D A w = (Inr x, w')"
  shows "version_metadata_table (tables_of w' t) =
           filter (\<lambda>r. \<not> (metadataId r \<in> set (map metadataId (dissociateMetadata_of D A)) \<and> versionId r = v))
             (version_metadata_table (tables_of w t)) \<and>
         (metadata_table (tables_of w' t) = metadata_table (tables_of w t) \<or>
          metadata_table (tables_of w' t) = filter (referenced (tables_of w' t)) (metadata_table (tables_of w t)))"
proof (cases "A \<noteq> [] \<and> dissociateMetadata_of D A \<noteq> []")
  case False
  with assms have "w' = w"
    by (auto simp: dissociate_def dissociateMetadata_of_def Let_def resolve_def split: if_splits)
  moreover from False have "A = [] \<or> dissociateMetadata_of D A = []" by blast
  moreover have "dissociateMetadata_of D [] = []" by (simp add: dissociateMetadata_of_def)
  ultimately show ?thesis by auto
next
  case True
  let ?ids = "map metadataId (dissociateMetadata_of D A)"
  from True assms have "await (query t DeleteVersionMetadata (delete_version_metadata ?ids v)) (\<lambda>_.
                    await (pruneOrphanedMetadata (Some t)) (\<lambda>_. resolve ())) w = (Inr x, w')"
    by (simp add: dissociate_def dissociateMetadata_of_def Let_def)
  then obtain n w1 where q1: "query t DeleteVersionMetadata (delete_version_metadata ?ids v) w = (Inr n, w1)"
    and r1: "await (pruneOrphanedMetadata (Some t)) (\<lambda>_. resolve ()) w1 = (Inr x, w')"
    by (rule await_Inr)
  from r1 obtain k w2 where p: "pruneOrphanedMetadata (Some t) w1 = (Inr k, w2)"
    and r2: "resolve () w2 = (Inr x, w')" by (rule await_Inr)
  from r2 have w2: "w' = w2" by (simp add: resolve_def)
  from query_Inr[OF q1] have t1: "tables_of w1 t = snd (delete_version_metadata ?ids v (tables_of w t))"
    by simp
  from pruneOrphanedMetadata_Inr[OF p] have
    m2: "metadata_table (tables_of w2 t) = filter (referenced (tables_of w1 t)) (metadata_table (tables_of w1 t))"
    and v2: "version_metadata_table (tables_of w2 t) = version_metadata_table (tables_of w1 t)"
    by simp_all
  from v2 have "referenced (tables_of w1 t) = referenced (tables_of w2 t)"
    by (intro referenced_cong) simp
  with m2 v2 t1 w2 show ?thesis by (simp add: delete_version_metadata_def)
qed

lemma newJoins_of_eq:
  "newJoins_of D A = filter (\<lambda>m. id' m \<notin> metadataId ` set A) D"
proof -
  have h: "(\<lambda>m. \<not> list_ex (\<lambda>vm. metadataId vm = id' m) A) = (\<lambda>m. id' m \<notin> metadataId ` set A)"
    by (rule ext) (force simp: list_ex_iff)
  show ?thesis unfolding newJoins_of_def h by simp
qed

lemma dissociated_ids:
  "metadataId ` set (dissociateMetadata_of D A) = metadataId ` set A - id' ` set D"
  unfolding dissociateMetadata_of_def list_ex_iff by force

lemma reconcile_sets:
  assumes IA: "IA = metadataId ` {r \<in> set vm0. versionId r = v}"
  shows "metadataId ` {r \<in> {r \<in> set vm0. \<not> (metadataId r \<in> IA - id' ` set D \<and> versionId r = v)}
                         \<union> (\<lambda>m. \<lparr>versionId = v, metadataId = id' m, createdBy = c\<rparr>) ` {m \<in> set D. id' m \<notin> IA}.
                       versionId r = v}
         = id' ` set D" (is "?L = ?ID")
proof (rule set_eqI, rule iffI)
  fix x assume "x \<in> ?L"
  then obtain r where r: "versionId r = v" "x = metadataId r"
    and mem: "(r \<in> set vm0 \<and> \<not> (metadataId r \<in> IA - ?ID \<and> versionId r = v))
         \<or> (\<exists>m \<in> set D. id' m \<notin> IA \<and> r = \<lparr>versionId = v, metadataId = id' m, createdBy = c\<rparr>)"
    by auto
  from mem show "x \<in> ?ID"
  proof
    assume a: "r \<in> set vm0 \<and> \<not> (metadataId r \<in> IA - ?ID \<and> versionId r = v)"
    with r have "metadataId r \<in> IA" unfolding IA by blast
    with a r show ?thesis by blast
  next
    assume "\<exists>m \<in> set D. id' m \<notin> IA \<and> r = \<lparr>versionId = v, metadataId = id' m, createdBy = c\<rparr>"
    then obtain m where "m \<in> set D" "r = \<lparr>versionId = v, metadataId = id' m, createdBy = c\<rparr>"
      by blast
    then have "m \<in> set D" "metadataId r = id' m" by simp_all
    with r show ?thesis by blast
  qed
next
  fix x assume "x \<in> ?ID"
  then obtain m where m: "m \<in> set D" "x = id' m" by blast
  show "x \<in> ?L"
  proof (cases "x \<in> IA")
    case True
    then obtain r where "r \<in> set vm0" "versionId r = v" "x = metadataId r" unfolding IA by blast
    with m show ?thesis by force
  next
    case False
    let ?r = "\<lparr>versionId = v, metadataId = id' m, createdBy = c\<rparr>"
    from False m have "?r \<in> (\<lambda>m. \<lparr>versionId = v, metadataId = id' m, createdBy = c\<rparr>) ` {m \<in> set D. id' m \<notin> IA}"
      by blast
    moreover have "versionId ?r = v" "x = metadataId ?r" using m by simp_all
    ultimately show ?thesis by blast
  qed
qed

lemma startTransaction_Inr:
  assumes "startTransaction w = (Inr t, w1)"
  shows "t = next_trx w \<and> tables_of w1 t = durable w \<and> durable w1 = durable w \<and> is_open w1 t"
proof -
  obtain r0 w0 where a: "attempt (Start (next_trx w)) w = (r0, w0)"
    by (cases "attempt (Start (next_trx w)) w")
  from attempt_cases[OF a] assms a show ?thesis
    by (auto simp: startTransaction_def Let_def await_def tables_of_def is_open_def split: sum.splits)
qed

lemma statements_only_is_open: "statements_only t w w' \<Longrightarrow> is_open w' u = is_open w u"
proof -
  assume "statements_only t w w'"
  then have "map_option status (transactions w' u) = map_option status (transactions w u)"
    by (simp add: statements_only_def)
  then show ?thesis by (auto simp: is_open_def split: option.splits)
qed

lemma commit_open:
  assumes "commit t w = (r, w')" "is_open w t"
  shows "r = Inr () \<and> durable w' = tables_of w t \<and> trace w' = trace w @ [Commit t] \<and>
         faults w' = faults w \<and> map_option status (transactions w' t) = Some Committed \<and>
         tables_of w' t = tables_of w t"
  using assms
  by (auto simp: commit_def Let_def tables_of_def is_open_def split: option.splits if_splits)

lemma try_catch_Inr:
  assumes "try_catch p (\<lambda>err. await q (\<lambda>_. reject err)) w = (Inr r, w')"
  shows "p w = (Inr r, w')"
  using assms
  by (auto simp: try_catch_def await_def reject_def split: prod.splits sum.splits)

lemma in_transaction_Inr:
  assumes run: "in_transaction etrx body w = (Inr r, w')"
    and fr: "\<And>t. frame t (body t)"
  obtains t w1 w2 where "tables_of w1 t = seen etrx w" "body t w1 = (Inr r, w2)"
    "seen etrx w' = tables_of w2 t"
proof (cases etrx)
  case (Some t)
  with run have "body t w = (Inr r, w')" by (simp add: in_transaction_Some)
  with Some that[of w t w'] show ?thesis by (simp add: seen_def)
next
  case None
  with run have "await startTransaction (\<lambda>trx.
          try_catch
            (await (body trx) (\<lambda>response.
             await (commit trx) (\<lambda>_. resolve response)))
            (\<lambda>err. await (rollback trx) (\<lambda>_. reject err))) w = (Inr r, w')"
    by (simp add: in_transaction_eq)
  then obtain t w1 where st: "startTransaction w = (Inr t, w1)"
    and tc: "try_catch
            (await (body t) (\<lambda>response. await (commit t) (\<lambda>_. resolve response)))
            (\<lambda>err. await (rollback t) (\<lambda>_. reject err)) w1 = (Inr r, w')"
    by (rule await_Inr)
  from tc have "await (body t) (\<lambda>response. await (commit t) (\<lambda>_. resolve response)) w1 = (Inr r, w')"
    by (rule try_catch_Inr)
  then obtain r2 w2 where b: "body t w1 = (Inr r2, w2)"
    and c: "await (commit t) (\<lambda>_. resolve r2) w2 = (Inr r, w')" by (rule await_Inr)
  from c obtain x w3 where c3: "commit t w2 = (Inr x, w3)" and "resolve r2 w3 = (Inr r, w')"
    by (rule await_Inr)
  then have eq: "r2 = r" "w3 = w'" by (simp_all add: resolve_def)
  from startTransaction_Inr[OF st] have s: "tables_of w1 t = durable w" and o1: "is_open w1 t"
    by blast+
  from fr b have "statements_only t w1 w2" by (simp add: frame_def)
  with o1 have "is_open w2 t" by (simp add: statements_only_is_open)
  with commit_open[OF c3] eq have cm: "durable w' = tables_of w2 t" by simp
  show ?thesis by (rule that[of w1 t w2]) (simp_all add: None seen_def s b eq cm)
qed

lemma associate_body_Inr:
  assumes run: "associateMetadata v (Some (m # ms)) u (Some t) w = (Inr r, w')"
    and D: "D = dbMetadata_of (m # ms) (tables_of w t)"
    and A: "A = filterVersionId v (version_metadata_table (tables_of w t))"
    and vm1: "vm1 = filter (\<lambda>r. \<not> (metadataId r \<in> set (map metadataId (dissociateMetadata_of D A)) \<and> versionId r = v))
                     (version_metadata_table (tables_of w t))"
  shows "version_metadata_table (tables_of w' t) =
           vm1 @ map (\<lambda>m. \<lparr>versionId = v, metadataId = id' m,
                             createdBy = (case u of None \<Rightarrow> SYSTEM_USER | Some c \<Rightarrow> c)\<rparr>) (newJoins_of D A)"
    and "\<exists>rows. metadata_table (tables_of w' t) = metadata_table (tables_of w t) @ rows \<or>
                metadata_table (tables_of w' t) =
                  filter (\<lambda>M. id' M \<in> set (map metadataId vm1)) (metadata_table (tables_of w t) @ rows)"
proof -
  let ?mk = "\<lambda>m. \<lparr>versionId = v, metadataId = id' m,
                   createdBy = (case u of None \<Rightarrow> SYSTEM_USER | Some c \<Rightarrow> c)\<rparr>"
  from run have "await (createMetadata (m # ms) (Some t)) (\<lambda>dbMetadata.
           await (query t SelectVersionMetadata (select_version_metadata v)) (\<lambda>associatedMetadata.
           await (dissociate t v dbMetadata associatedMetadata) (\<lambda>_.
             let newJoins = newJoins_of dbMetadata associatedMetadata in
             if newJoins \<noteq> []
             then query t InsertVersionMetadata (insert_version_metadata (map ?mk newJoins))
             else resolve []))) w = (Inr r, w')"
    by (simp add: associateMetadata_def in_transaction_Some)
  then obtain D0 w1 where c: "createMetadata (m # ms) (Some t) w = (Inr D0, w1)"
    and r1: "await (query t SelectVersionMetadata (select_version_metadata v)) (\<lambda>associatedMetadata.
           await (dissociate t v D0 associatedMetadata) (\<lambda>_.
             let newJoins = newJoins_of D0 associatedMetadata in
             if newJoins \<noteq> []
             then query t InsertVersionMetadata (insert_version_metadata (map ?mk newJoins))
             else resolve [])) w1 = (Inr r, w')"
    by (rule await_Inr)
  from createMetadata_Inr[OF c] D obtain rows where D0: "D0 = D"
    and v1: "version_metadata_table (tables_of w1 t) = version_metadata_table (tables_of w t)"
    and m1: "metadata_table (tables_of w1 t) = metadata_table (tables_of w t) @ rows"
    by blast
  from r1 obtain A0 w2 where q: "query t SelectVersionMetadata (select_version_metadata v) w1 = (Inr A0, w2)"
    and r2: "await (dissociate t v D0 A0) (\<lambda>_.
             let newJoins = newJoins_of D0 A0 in
             if newJoins \<noteq> []
             then query t InsertVersionMetadata (insert_version_metadata (map ?mk newJoins))
             else resolve []) w2 = (Inr r, w')"
    by (rule await_Inr)
  from query_Inr[OF q] v1 A have A0: "A0 = A" and t2: "tables_of w2 t = tables_of w1 t"
    by (simp_all add: select_version_metadata_def)
  from r2 obtain x w3 where ds: "dissociate t v D0 A0 w2 = (Inr x, w3)"
    and r3: "(let newJoins = newJoins_of D0 A0 in
             if newJoins \<noteq> []
             then query t InsertVersionMetadata (insert_version_metadata (map ?mk newJoins))
             else resolve []) w3 = (Inr r, w')"
    by (rule await_Inr)
  from dissociate_Inr[OF ds] D0 A0 t2 v1 vm1 have v3: "version_metadata_table (tables_of w3 t) = vm1"
    and m3: "metadata_table (tables_of w3 t) = metadata_table (tables_of w1 t) \<or>
             metadata_table (tables_of w3 t) = filter (referenced (tables_of w3 t)) (metadata_table (tables_of w1 t))"
    by simp_all
  have ref3: "referenced (tables_of w3 t) = (\<lambda>M. id' M \<in> set (map metadataId vm1))"
    by (rule ext) (simp add: referenced_def v3)
  have fin: "version_metadata_table (tables_of w' t) = vm1 @ map ?mk (newJoins_of D A) \<and>
             metadata_table (tables_of w' t) = metadata_table (tables_of w3 t)"
  proof (cases "newJoins_of D A = []")
    case True
    with r3 D0 A0 have "w' = w3" by (simp add: resolve_def)
    with True v3 show ?thesis by simp
  next
    case False
    with r3 D0 A0 have "query t InsertVersionMetadata (insert_version_metadata (map ?mk (newJoins_of D A))) w3 = (Inr r, w')"
      by simp
    from query_Inr[OF this] v3 show ?thesis by (simp add: insert_version_metadata_def)
  qed
  from fin show "version_metadata_table (tables_of w' t) = vm1 @ map ?mk (newJoins_of D A)" by simp
  from fin m3 m1 ref3
  show "\<exists>rows. metadata_table (tables_of w' t) = metadata_table (tables_of w t) @ rows \<or>
                metadata_table (tables_of w' t) =
                  filter (\<lambda>M. id' M \<in> set (map metadataId vm1)) (metadata_table (tables_of w t) @ rows)"
    by (intro exI[of _ rows]) auto
qed

lemma insert_rows_pairs: "(\<lambda>M. (key M, value' M)) ` set (insert_rows n kvs) = set kvs"
  by (induction n kvs rule: insert_rows.induct) auto

lemma forEach_metadata_pairs:
  "forEach_metadata all md = (ex, nw) \<Longrightarrow> (\<lambda>M. (key M, value' M)) ` set ex \<union> set nw = set md"
proof (induction md arbitrary: ex nw)
  case Nil
  then show ?case by simp
next
  case (Cons p md)
  obtain k v where p: "p = (k, v)" by (cases p)
  obtain ex0 nw0 where r: "forEach_metadata all md = (ex0, nw0)" by (cases "forEach_metadata all md")
  from Cons.IH[OF r] have IH: "set md = (\<lambda>M. (key M, value' M)) ` set ex0 \<union> set nw0" by simp
  show ?case
  proof (cases "getObjectsByKeyValue all k v")
    case None
    with Cons.prems p r have "ex = ex0" "nw = (k, v) # nw0" by simp_all
    with IH p show ?thesis by auto
  next
    case (Some obj)
    with Cons.prems p r have "ex = \<lparr>id' = id' obj, key = k, value' = v\<rparr> # ex0" "nw = nw0" by simp_all
    with IH p show ?thesis by auto
  qed
qed

lemma dbMetadata_of_pairs: "(\<lambda>M. (key M, value' M)) ` set (dbMetadata_of md d) = set md"
proof -
  obtain ex nw where r: "forEach_metadata (metadata_table d) md = (ex, nw)"
    by (cases "forEach_metadata (metadata_table d) md")
  from forEach_metadata_pairs[OF r] show ?thesis
    by (simp add: dbMetadata_of_def r image_Un insert_rows_pairs)
qed

lemma associate_via_seen:
  assumes "associateMetadata v md u etrx w = (Inr r, w')"
  obtains t w1 w2 where "tables_of w1 t = seen etrx w"
    "associateMetadata v md u (Some t) w1 = (Inr r, w2)" "seen etrx w' = tables_of w2 t"
  using assms unfolding associateMetadata_def in_transaction_Some
  by (rule in_transaction_Inr)
     (rule frame_associate_body[unfolded associateMetadata_def in_transaction_Some])

lemma prune_via_seen:
  assumes "pruneOrphanedMetadata etrx w = (Inr r, w')"
  obtains t w1 w2 where "tables_of w1 t = seen etrx w"
    "pruneOrphanedMetadata (Some t) w1 = (Inr r, w2)" "seen etrx w' = tables_of w2 t"
  using assms unfolding pruneOrphanedMetadata_def in_transaction_Some
  by (rule in_transaction_Inr)
     (rule frame_pruneOrphanedMetadata[unfolded pruneOrphanedMetadata_def in_transaction_Some])

lemma associate_joined:
  assumes run: "associateMetadata v (Some (m # ms)) u (Some t) w = (Inr r, w')"
  shows "joined v (tables_of w' t) = id' ` set (dbMetadata_of (m # ms) (tables_of w t))"
proof -
  let ?D = "dbMetadata_of (m # ms) (tables_of w t)"
  let ?vm0 = "version_metadata_table (tables_of w t)"
  let ?A = "filterVersionId v ?vm0"
  let ?c = "case u of None \<Rightarrow> SYSTEM_USER | Some c \<Rightarrow> c"
  have IA: "metadataId ` set ?A = metadataId ` {r \<in> set ?vm0. versionId r = v}"
    by (simp add: filterVersionId_def)
  from associate_body_Inr(1)[OF run refl refl refl]
  have "joined v (tables_of w' t) =
      metadataId ` {r \<in> {r \<in> set ?vm0. \<not> (metadataId r \<in> metadataId ` set ?A - id' ` set ?D \<and> versionId r = v)}
                         \<union> (\<lambda>m. \<lparr>versionId = v, metadataId = id' m, createdBy = ?c\<rparr>) ` {m \<in> set ?D. id' m \<notin> metadataId ` set ?A}.
                       versionId r = v}"
    unfolding joined_def
    by (simp only: newJoins_of_eq set_map set_append set_filter dissociated_ids filterVersionId_def)
  also have "\<dots> = id' ` set ?D" by (rule reconcile_sets[OF IA])
  finally show ?thesis .
qed

lemma associate_empty: 
  assumes "md = None \<or> md = Some []"
  shows "associateMetadata v md u etrx = in_transaction etrx (\<lambda>trx. resolve [])"
  using assms by (auto simp: associateMetadata_def)

lemma attempt_faults:
  assumes "attempt ev w = (r, w')"
  shows "r = Inl DbError \<and> faults w = True # faults w' \<or>
         r = Inr () \<and> (faults w = False # faults w' \<or> faults w = [] \<and> faults w' = [])"
  using assms by (auto simp: attempt_def Let_def split: list.splits if_splits)

lemma no_rejection_same: "faults w' = faults w \<Longrightarrow> no_rejection w w'"
  unfolding no_rejection_def by (rule exI[of _ 0]) simp

lemma no_rejection_trans:
  assumes "no_rejection w w1" "no_rejection w1 w2"
  shows "no_rejection w w2"
proof -
  from assms obtain n m where "faults w = replicate n False @ faults w1"
    "faults w1 = replicate m False @ faults w2"
    unfolding no_rejection_def by blast
  then have "faults w = replicate (n + m) False @ faults w2" by (simp add: replicate_add)
  then show ?thesis unfolding no_rejection_def by blast
qed

lemma rejected_after:
  assumes "no_rejection w w1" "rejected_attempt w1 w2"
  shows "rejected_attempt w w2"
proof -
  from assms obtain n m where "faults w = replicate n False @ faults w1"
    "faults w1 = replicate m False @ True # faults w2"
    unfolding no_rejection_def rejected_attempt_def by blast
  then have "faults w = replicate (n + m) False @ True # faults w2" by (simp add: replicate_add)
  then show ?thesis unfolding rejected_attempt_def by blast
qed

lemma rejected_then_same:
  "rejected_attempt w w1 \<Longrightarrow> faults w2 = faults w1 \<Longrightarrow> rejected_attempt w w2"
  by (simp add: rejected_attempt_def)

lemma attempt_propagates:
  assumes "attempt ev w = (r, w')"
  shows "r = Inl DbError \<and> rejected_attempt w w' \<or> r = Inr () \<and> no_rejection w w'"
proof -
  from attempt_faults[OF assms] consider
      (rej) "r = Inl DbError" "faults w = True # faults w'"
    | (acc) "r = Inr ()" "faults w = False # faults w'"
    | (none) "r = Inr ()" "faults w = []" "faults w' = []"
    by blast
  then show ?thesis
  proof cases
    case rej
    then have "faults w = replicate 0 False @ True # faults w'" by simp
    then have "rejected_attempt w w'" unfolding rejected_attempt_def by blast
    with rej show ?thesis by simp
  next
    case acc
    then have "faults w = replicate 1 False @ faults w'" by simp
    then have "no_rejection w w'" unfolding no_rejection_def by blast
    with acc show ?thesis by simp
  next
    case none
    then have "no_rejection w w'" by (simp add: no_rejection_same)
    with none show ?thesis by simp
  qed
qed

lemma honest_resolve: "honest t (resolve x)"
  by (simp add: honest_def resolve_def propagates_def no_rejection_same)

lemma honest_query: "honest t (query t s run)"
  unfolding honest_def
proof (intro allI impI)
  fix w r w' assume run: "query t s run w = (r, w')"
  obtain r0 w0 where a: "attempt (Statement t s) w = (r0, w0)"
    by (cases "attempt (Statement t s) w")
  from attempt_cases[OF a] have tr: "transactions w0 = transactions w" by simp
  from attempt_propagates[OF a] show "propagates t w r w'"
  proof
    assume "r0 = Inl DbError \<and> rejected_attempt w w0"
    with run a show ?thesis by (auto simp: query_def await_def propagates_def)
  next
    assume ok: "r0 = Inr () \<and> no_rejection w w0"
    with run a have f: "faults w' = faults w0"
      by (auto simp: query_def await_def split: option.splits if_splits prod.splits)
    from ok f have nr: "no_rejection w w'" by (simp add: no_rejection_def)
    from run a ok tr have "(\<exists>x. r = Inr x) \<or> r = Inl TransactionClosed \<and> \<not> is_open w t"
      by (auto simp: query_def await_def is_open_def split: option.splits if_splits prod.splits)
    with nr show ?thesis by (auto simp: propagates_def)
  qed
qed

lemma honest_await:
  assumes fr: "frame t p" and hp: "honest t p" and hk: "\<And>x. honest t (k x)"
  shows "honest t (await p k)"
  unfolding honest_def
proof (intro allI impI)
  fix w r w' assume run: "await p k w = (r, w')"
  obtain r1 w1 where p: "p w = (r1, w1)" by (cases "p w")
  with hp have p1: "propagates t w r1 w1" by (simp add: honest_def)
  from fr p have "statements_only t w w1" unfolding frame_def by blast
  then have op: "is_open w1 t = is_open w t" by (rule statements_only_is_open)
  show "propagates t w r w'"
  proof (cases r1)
    case (Inl e)
    with run p have "r = Inl e" "w' = w1" by (simp_all add: await_def)
    with p1 Inl show ?thesis by (simp add: propagates_def)
  next
    case (Inr x)
    with run p have "k x w1 = (r, w')" by (simp add: await_def)
    with hk have p2: "propagates t w1 r w'" by (simp add: honest_def)
    from p1 Inr have n1: "no_rejection w w1" by (simp add: propagates_def)
    show ?thesis
    proof (cases r)
      case (Inr y)
      with p2 have "no_rejection w1 w'" by (simp add: propagates_def)
      with n1 Inr show ?thesis by (simp add: propagates_def no_rejection_trans[of w w1 w'])
    next
      case (Inl e)
      with p2 have "e = DbError \<and> rejected_attempt w1 w' \<or>
                 e = TransactionClosed \<and> \<not> is_open w1 t \<and> no_rejection w1 w'"
        by (simp add: propagates_def)
      then have "e = DbError \<and> rejected_attempt w w' \<or>
                 e = TransactionClosed \<and> \<not> is_open w t \<and> no_rejection w w'"
        using n1 op rejected_after[of w w1 w'] no_rejection_trans[of w w1 w'] by blast
      with Inl show ?thesis by (simp add: propagates_def)
    qed
  qed
qed

lemma honest_createMetadata: "honest t (createMetadata md (Some t))"
  unfolding createMetadata_def in_transaction_Some
  by (intro honest_await frame_query honest_query)
     (auto split: prod.splits intro!: honest_await frame_query honest_query honest_resolve)

lemma honest_pruneOrphanedMetadata: "honest t (pruneOrphanedMetadata (Some t))"
  unfolding pruneOrphanedMetadata_def in_transaction_Some
  by (intro honest_await frame_query honest_query)

lemma honest_dissociate: "honest t (dissociate t v D A)"
  unfolding dissociate_def Let_def
  by (auto intro!: honest_await frame_query honest_query honest_resolve
        frame_pruneOrphanedMetadata honest_pruneOrphanedMetadata)

lemma honest_associate_body: "honest t (associateMetadata v md u (Some t))"
  unfolding associateMetadata_def in_transaction_Some Let_def
  by (auto split: option.splits list.splits
        intro!: honest_await frame_query honest_query honest_resolve
          frame_createMetadata honest_createMetadata frame_dissociate honest_dissociate)

lemma startTransaction_cases:
  assumes "startTransaction w = (r, w1)"
  shows "trace w1 = trace w @ [Start (next_trx w)] \<and> durable w1 = durable w \<and>
         (r = Inl DbError \<and> transactions w1 = transactions w \<and> rejected_attempt w w1 \<or>
          r = Inr (next_trx w) \<and> no_rejection w w1 \<and>
          transactions w1 = (transactions w)(next_trx w \<mapsto> \<lparr>status = Open, tables = durable w\<rparr>))"
proof -
  obtain r0 w0 where a: "attempt (Start (next_trx w)) w = (r0, w0)"
    by (cases "attempt (Start (next_trx w)) w")
  from attempt_propagates[OF a] show ?thesis
  proof
    assume "r0 = Inl DbError \<and> rejected_attempt w w0"
    with attempt_cases[OF a] assms a show ?thesis
      by (auto simp: startTransaction_def Let_def await_def)
  next
    assume ok: "r0 = Inr () \<and> no_rejection w w0"
    with assms a have "faults w1 = faults w0"
      by (auto simp: startTransaction_def Let_def await_def)
    with ok have "no_rejection w w1" by (simp add: no_rejection_def)
    with ok attempt_cases[OF a] assms a show ?thesis
      by (auto simp: startTransaction_def Let_def await_def)
  qed
qed

lemma rollback_open:
  assumes "transactions w t = Some tx" "status tx = Open"
  shows "rollback t w = (Inr (), w\<lparr>trace := trace w @ [Rollback t],
                                  transactions := (transactions w)(t \<mapsto> tx\<lparr>status := RolledBack\<rparr>)\<rparr>)"
  using assms by (simp add: rollback_def Let_def)

lemma local_transaction:
  assumes eq: "\<And>etrx. f etrx = in_transaction etrx body"
    and fr: "\<And>t. frame t (f (Some t))"
    and ho: "\<And>t. honest t (f (Some t))"
  shows "owns_local_transaction f"
  unfolding owns_local_transaction_def Let_def
proof (intro allI impI)
  fix w r w'
  assume run: "f None w = (r, w')"
  let ?t = "next_trx w"
  let ?P = "case r of
           Inr x \<Rightarrow>
             no_rejection w w' \<and>
             (\<exists>ss. trace w' = trace w @ Start ?t # map (Statement ?t) ss @ [Commit ?t]) \<and>
             map_option status (transactions w' ?t) = Some Committed \<and>
             durable w' = tables_of w' ?t
         | Inl e \<Rightarrow>
             e = DbError \<and> rejected_attempt w w' \<and> durable w' = durable w \<and>
             (trace w' = trace w @ [Start ?t] \<and> transactions w' = transactions w \<or>
              (\<exists>ss. trace w' = trace w @ Start ?t # map (Statement ?t) ss @ [Rollback ?t]) \<and>
              map_option status (transactions w' ?t) = Some RolledBack)"
  have body: "\<And>t. frame t (body t)" "\<And>t. honest t (body t)"
    using fr ho by (simp_all add: eq in_transaction_Some)
  obtain r1 w1 where st: "startTransaction w = (r1, w1)" by (cases "startTransaction w")
  from startTransaction_cases[OF st] have tr1: "trace w1 = trace w @ [Start ?t]"
    and d1: "durable w1 = durable w"
    and alt: "r1 = Inl DbError \<and> transactions w1 = transactions w \<and> rejected_attempt w w1 \<or>
          r1 = Inr ?t \<and> no_rejection w w1 \<and>
          transactions w1 = (transactions w)(?t \<mapsto> \<lparr>status = Open, tables = durable w\<rparr>)"
    by simp_all
  from alt show ?P
  proof
    assume a: "r1 = Inl DbError \<and> transactions w1 = transactions w \<and> rejected_attempt w w1"
    with run st have "r = Inl DbError" "w' = w1"
      by (simp_all add: eq in_transaction_eq await_def)
    with a tr1 d1 show ?P by simp
  next
    assume a: "r1 = Inr ?t \<and> no_rejection w w1 \<and>
          transactions w1 = (transactions w)(?t \<mapsto> \<lparr>status = Open, tables = durable w\<rparr>)"
    then have o1: "is_open w1 ?t" by (simp add: is_open_def)
    obtain r2 w2 where b: "body ?t w1 = (r2, w2)" by (cases "body ?t w1")
    with body have so: "statements_only ?t w1 w2" and pr: "propagates ?t w1 r2 w2"
      by (simp_all add: frame_def honest_def)
    from so obtain ss where tr2: "trace w2 = trace w1 @ map (Statement ?t) ss"
      and d2: "durable w2 = durable w1"
      unfolding statements_only_def by blast
    from so o1 have o2: "is_open w2 ?t" by (simp add: statements_only_is_open)
    then obtain tx where tx: "transactions w2 ?t = Some tx" "status tx = Open"
      by (auto simp: is_open_def split: option.splits)
    from run st a have run': "try_catch
            (await (body ?t) (\<lambda>response. await (commit ?t) (\<lambda>_. resolve response)))
            (\<lambda>err. await (rollback ?t) (\<lambda>_. reject err)) w1 = (r, w')"
      by (simp add: eq in_transaction_eq await_def)
    show ?P
    proof (cases r2)
      case (Inl e)
      with run' b rollback_open[OF tx] have r: "r = Inl e"
        and w': "w' = w2\<lparr>trace := trace w2 @ [Rollback ?t],
                 transactions := (transactions w2)(?t \<mapsto> tx\<lparr>status := RolledBack\<rparr>)\<rparr>"
        by (simp_all add: try_catch_def await_def reject_def)
      from pr Inl o1 have e: "e = DbError" and rj: "rejected_attempt w1 w2"
        by (auto simp: propagates_def)
      from a rj have "rejected_attempt w w2" using rejected_after[of w w1 w2] by blast
      then have rj': "rejected_attempt w w'" by (rule rejected_then_same) (simp add: w')
      have "trace w' = trace w @ Start ?t # map (Statement ?t) ss @ [Rollback ?t]"
        by (simp add: w' tr2 tr1)
      then have ex: "\<exists>ss. trace w' = trace w @ Start ?t # map (Statement ?t) ss @ [Rollback ?t]"
        by blast
      have "durable w' = durable w" "map_option status (transactions w' ?t) = Some RolledBack"
        by (simp_all add: w' d1 d2)
      with ex r e rj' show ?thesis by simp
    next
      case (Inr x)
      obtain r3 w3 where c: "commit ?t w2 = (r3, w3)" by (cases "commit ?t w2")
      from commit_open[OF c o2] have r3: "r3 = Inr ()"
        and d3: "durable w3 = tables_of w2 ?t" and tr3: "trace w3 = trace w2 @ [Commit ?t]"
        and f3: "faults w3 = faults w2"
        and s3: "map_option status (transactions w3 ?t) = Some Committed"
        and t3: "tables_of w3 ?t = tables_of w2 ?t"
        by simp_all
      from run' b Inr c r3 have r: "r = Inr x" and w': "w' = w3"
        by (simp_all add: try_catch_def await_def resolve_def)
      from pr Inr have "no_rejection w1 w2" by (simp add: propagates_def)
      with a have "no_rejection w w2" using no_rejection_trans[of w w1 w2] by blast
      with f3 have nr: "no_rejection w w3" by (simp add: no_rejection_def)
      have "trace w3 = trace w @ Start ?t # map (Statement ?t) ss @ [Commit ?t]"
        by (simp add: tr3 tr2 tr1)
      then have ex: "\<exists>ss. trace w3 = trace w @ Start ?t # map (Statement ?t) ss @ [Commit ?t]"
        by blast
      from d3 t3 have "durable w3 = tables_of w3 ?t" by simp
      with ex nr s3 r w' show ?thesis by simp
    qed
  qed
qed

lemma caller_transaction:
  assumes "\<And>t. frame t (f (Some t))" "\<And>t. honest t (f (Some t))"
  shows "joins_caller_transaction f"
  using assms by (simp add: joins_caller_transaction_def frame_def honest_def)

lemma empty_noop:
  assumes "md = None \<or> md = Some []" and "associateMetadata v md u etrx w = (r, w')"
  shows "(r = Inr [] \<or> etrx = None \<and> r = Inl DbError) \<and> durable w' = durable w \<and>
         seen etrx w' = seen etrx w \<and>
         filter is_statement (trace w') = filter is_statement (trace w)"
proof (cases etrx)
  case (Some t)
  with assms have "r = Inr []" "w' = w"
    by (auto simp: associate_empty in_transaction_Some resolve_def)
  then show ?thesis by simp
next
  case None
  with assms have run: "in_transaction None (\<lambda>trx. resolve ([] :: version_metadata_row list)) w = (r, w')"
    by (simp add: associate_empty)
  then show ?thesis unfolding None
    by (auto simp: in_transaction_eq await_def try_catch_def resolve_def reject_def
          startTransaction_def commit_def rollback_def attempt_def Let_def is_statement_def seen_def
          split: list.splits if_splits sum.splits prod.splits option.splits)
qed

lemma associate_keeps_shared:
  assumes run: "associateMetadata v md u etrx w = (Inr r, w')"
    and M: "M \<in> set (metadata_table (seen etrx w))"
    and j: "j \<in> set (version_metadata_table (seen etrx w))" "metadataId j = id' M" "versionId j \<noteq> v"
  shows "M \<in> set (metadata_table (seen etrx w')) \<and> j \<in> set (version_metadata_table (seen etrx w'))"
proof (cases "md = None \<or> md = Some []")
  case True
  from empty_noop[OF True run] M j show ?thesis by simp
next
  case False
  then obtain m ms where md: "md = Some (m # ms)" by (cases md; cases "the md") auto
  from run obtain t w1 w2 where 1: "tables_of w1 t = seen etrx w"
    and 2: "associateMetadata v md u (Some t) w1 = (Inr r, w2)"
    and 3: "seen etrx w' = tables_of w2 t"
    by (rule associate_via_seen)
  let ?D = "dbMetadata_of (m # ms) (tables_of w1 t)"
  let ?A = "filterVersionId v (version_metadata_table (tables_of w1 t))"
  let ?vm1 = "filter (\<lambda>r. \<not> (metadataId r \<in> set (map metadataId (dissociateMetadata_of ?D ?A)) \<and> versionId r = v))
                     (version_metadata_table (tables_of w1 t))"
  from j 1 have j1: "j \<in> set ?vm1" by simp
  from associate_body_Inr(1)[OF 2[unfolded md] refl refl refl] j1
  have vm: "j \<in> set (version_metadata_table (tables_of w2 t))" by simp
  from associate_body_Inr(2)[OF 2[unfolded md] refl refl refl] obtain rows where
    "metadata_table (tables_of w2 t) = metadata_table (tables_of w1 t) @ rows \<or>
     metadata_table (tables_of w2 t) =
        filter (\<lambda>M. id' M \<in> set (map metadataId ?vm1)) (metadata_table (tables_of w1 t) @ rows)"
    by blast
  moreover from j1 j(2) have "id' M \<in> set (map metadataId ?vm1)" by force
  ultimately have "M \<in> set (metadata_table (tables_of w2 t))" using M 1 by auto
  with vm 3 show ?thesis by simp
qed

lemma prune_exact:
  assumes "pruneOrphanedMetadata etrx w = (Inr n, w')"
  shows "metadata_table (seen etrx w') = filter (referenced (seen etrx w)) (metadata_table (seen etrx w)) \<and>
         version_metadata_table (seen etrx w') = version_metadata_table (seen etrx w) \<and>
         n = length (filter (\<lambda>m. \<not> referenced (seen etrx w) m) (metadata_table (seen etrx w))) \<and>
         list_all (referenced (seen etrx w')) (metadata_table (seen etrx w'))"
proof -
  from assms obtain t w1 w2 where 1: "tables_of w1 t = seen etrx w"
    and 2: "pruneOrphanedMetadata (Some t) w1 = (Inr n, w2)"
    and 3: "seen etrx w' = tables_of w2 t"
    by (rule prune_via_seen)
  from pruneOrphanedMetadata_Inr[OF 2] 1 3 have
    a: "metadata_table (seen etrx w') = filter (referenced (seen etrx w)) (metadata_table (seen etrx w))"
    and b: "version_metadata_table (seen etrx w') = version_metadata_table (seen etrx w)"
    and c: "n = length (filter (\<lambda>m. \<not> referenced (seen etrx w) m) (metadata_table (seen etrx w)))"
    by simp_all
  from b have "referenced (seen etrx w') = referenced (seen etrx w)" by (rule referenced_cong)
  with a have "list_all (referenced (seen etrx w')) (metadata_table (seen etrx w'))"
    by (simp add: list_all_iff)
  with a b c show ?thesis by simp
qed

text \<open>
  Without the caller's transaction, \<^verbatim>\<open>associateMetadata\<close> is its own statements inside the
  frame, with the \<^verbatim>\<open>COMMIT\<close> accepted.
\<close>

lemma associateMetadata_frame:
  "associateMetadata v md u None =
   transaction_frame commit None (\<lambda>trx. associateMetadata v md u (Some trx))"
  by (simp add: associateMetadata_def in_transaction_Some) (simp add: in_transaction_def)

section \<open>Properties of the catalog, the validator, the storage and the user service\<close>

lemma version_order_objectId: "version_order a b \<Longrightarrow> objectId a \<le> objectId b"
  by (auto simp: version_order_def)

lemma distinctOn_first:
  "sorted_wrt version_order xs \<Longrightarrow>
   filter (\<lambda>v. objectId v = oid) (distinctOn xs) = take 1 (filter (\<lambda>v. objectId v = oid) xs)"
proof (induction xs rule: distinctOn.induct)
  case 1
  then show ?case by simp
next
  case (2 x)
  then show ?case by simp
next
  case (3 x y ys)
  show ?case
  proof (cases "objectId x = objectId y")
    case True
    from "3.prems" have "sorted_wrt version_order (x # ys)" by simp
    with "3.IH"(1)[OF True] True show ?thesis by simp
  next
    case False
    from "3.prems" have s: "sorted_wrt version_order (y # ys)" and xy: "version_order x y"
      by simp_all
    from xy False have lt: "objectId x < objectId y" by (auto simp: version_order_def)
    have far: "\<forall>z \<in> set (y # ys). objectId x < objectId z"
    proof
      fix z assume "z \<in> set (y # ys)"
      then have "z = y \<or> version_order y z" using s by auto
      then have "objectId y \<le> objectId z" using version_order_objectId by auto
      with lt show "objectId x < objectId z" by simp
    qed
    show ?thesis
    proof (cases "objectId x = oid")
      case True
      with far have "filter (\<lambda>v. objectId v = oid) (y # ys) = []"
        by (auto simp: filter_empty_conv)
      with "3.IH"(2)[OF False s] True False show ?thesis by simp
    next
      case F: False
      with "3.IH"(2)[OF False s] False show ?thesis by simp
    qed
  qed
qed

lemma first_is_latest:
  assumes "sorted_wrt version_order xs" "filter (\<lambda>v. objectId v = oid) xs = v # rest"
    "w \<in> set xs" "objectId w = oid"
  shows "createdAt w \<le> createdAt v"
  using assms
proof (induction xs)
  case Nil
  then show ?case by simp
next
  case (Cons x xs)
  show ?case
  proof (cases "objectId x = oid")
    case True
    with Cons.prems(2) have vx: "v = x" by simp
    from Cons.prems(3) have "w = x \<or> w \<in> set xs" by simp
    then show ?thesis
    proof
      assume "w = x" with vx show ?thesis by simp
    next
      assume "w \<in> set xs"
      with Cons.prems(1) have "version_order x w" by simp
      with True Cons.prems(4) vx show ?thesis by (auto simp: version_order_def)
    qed
  next
    case False
    with Cons.prems have "filter (\<lambda>v. objectId v = oid) xs = v # rest" "w \<in> set xs"
      "sorted_wrt version_order xs" by auto
    with Cons.IH Cons.prems(4) show ?thesis by simp
  qed
qed

lemma orderBy_result_set:
  "orderBy_result vs xs \<Longrightarrow> set xs = {v \<in> set vs. \<not> deleteMarker v}"
  unfolding orderBy_result_def by (metis mset_eq_setD set_filter)

lemma current_version_cases:
  assumes "orderBy_result vs xs"
  shows "version_graph xs oid = [] \<and> \<not> list_ex (\<lambda>v. objectId v = oid \<and> \<not> deleteMarker v) vs \<or>
         (\<exists>v. version_graph xs oid = [v] \<and> v \<in> set vs \<and> objectId v = oid \<and> \<not> deleteMarker v \<and>
              (\<forall>w \<in> set vs. objectId w = oid \<and> \<not> deleteMarker w \<longrightarrow> createdAt w \<le> createdAt v))"
proof -
  from assms have srt: "sorted_wrt version_order xs" by (simp add: orderBy_result_def)
  have st: "set xs = {v \<in> set vs. \<not> deleteMarker v}" using assms by (rule orderBy_result_set)
  have vg: "version_graph xs oid = take 1 (filter (\<lambda>v. objectId v = oid) xs)"
    unfolding version_graph_def using srt by (rule distinctOn_first)
  show ?thesis
  proof (cases "filter (\<lambda>v. objectId v = oid) xs")
    case Nil
    then have "\<forall>v \<in> set xs. objectId v \<noteq> oid" by (simp add: filter_empty_conv)
    with st have "\<not> list_ex (\<lambda>v. objectId v = oid \<and> \<not> deleteMarker v) vs"
      by (auto simp: list_ex_iff)
    with vg Nil show ?thesis by simp
  next
    case (Cons v rest)
    then have "v \<in> set (filter (\<lambda>v. objectId v = oid) xs)" by simp
    then have v: "v \<in> set xs" "objectId v = oid" by simp_all
    have "\<forall>w \<in> set vs. objectId w = oid \<and> \<not> deleteMarker w \<longrightarrow> createdAt w \<le> createdAt v"
    proof (intro ballI impI)
      fix w assume "w \<in> set vs" "objectId w = oid \<and> \<not> deleteMarker w"
      with st have "w \<in> set xs" "objectId w = oid" by simp_all
      with srt Cons show "createdAt w \<le> createdAt v" by (rule first_is_latest)
    qed
    with v st vg Cons show ?thesis by auto
  qed
qed

lemma map_throwing_TypeError:
  assumes "\<exists>x \<in> set xs. f x = Inl TypeError" "\<And>x e. f x = Inl e \<Longrightarrow> e = TypeError"
  shows "map_throwing f xs = Inl TypeError"
  using assms(1)
proof (induction xs)
  case Nil
  then show ?case by simp
next
  case (Cons x xs)
  show ?case
  proof (cases "f x")
    case (Inl e)
    with assms(2) show ?thesis by simp
  next
    case (Inr y)
    with Cons.prems have "\<exists>x \<in> set xs. f x = Inl TypeError" by auto
    with Cons.IH Inr show ?thesis by simp
  qed
qed

lemma fetch_TypeError:
  assumes ord: "orderBy_result (versions c) xs"
    and ob: "ob \<in> set (objects c)" "filterIds mods (objId ps) ob" "hasPermission mods (userId ps) ob"
    and del: "\<forall>v \<in> set (versions c). objectId v = object_id ob \<longrightarrow> deleteMarker v"
  shows "fetchMetadataForObject mods ps c xs = Inl TypeError"
proof -
  let ?row = "\<lambda>ob. (object_id ob,
                   map (\<lambda>v. (v, metadata_graph (joins c) (filterKeyValue mods (metadata ps)) v))
                       (version_graph xs (object_id ob)))"
  let ?rows = "map ?row (filter (\<lambda>ob. filterIds mods (objId ps) ob \<and> hasPermission mods (userId ps) ob) (objects c))"
  from del have "\<not> list_ex (\<lambda>v. objectId v = object_id ob \<and> \<not> deleteMarker v) (versions c)"
    by (auto simp: list_ex_iff)
  with current_version_cases[OF ord, of "object_id ob"] have "version_graph xs (object_id ob) = []"
    by (auto simp: list_ex_iff)
  then have "restructure (?row ob) = Inl TypeError" by (simp add: restructure_def)
  moreover from ob have "?row ob \<in> set ?rows" by simp
  ultimately have "\<exists>r \<in> set ?rows. restructure r = Inl TypeError" by blast
  moreover have "\<And>r e. restructure r = Inl e \<Longrightarrow> e = TypeError"
    by (auto simp: restructure_def split: list.splits)
  ultimately have "map_throwing restructure ?rows = Inl TypeError" by (rule map_throwing_TypeError)
  then show ?thesis by (simp add: fetchMetadataForObject_def)
qed

lemma searchPermissions_userId:
  "(objectPerms_is_true c q \<and> map_of q ''userId'' = None \<longrightarrow>
      (\<exists>k. searchPermissions_query c q = Inl (ValidationError k))) \<and>
   (objectPerms_is_true c q \<and> searchPermissions_query c q = Inr () \<longrightarrow>
      (\<exists>s. map_of q ''userId'' = Some (Single s) \<and> uuidv4 c s)) \<and>
   (objectPerms_is_true c q \<and> other_keys_valid c q \<and> (\<exists>s. map_of q ''userId'' = Some (Single s) \<and> uuidv4 c s) \<longrightarrow>
      searchPermissions_query c q = Inr ()) \<and>
   (\<not> objectPerms_is_true c q \<and> other_keys_valid c q \<and> map_of q ''userId'' = None \<longrightarrow>
      searchPermissions_query c q = Inr ())"
  by (auto simp: searchPermissions_query_def userId_schema_def required_def optional_def
        type_uuidv4_def other_keys_valid_def split: option.splits qvalue.splits if_splits)







lemma createUser_idp:
  "createUser newId data d = (row, d') \<Longrightarrow>
   users d' = users d @ [with_userId newId data] \<and>
   (case idp data of
      None \<Rightarrow> identity_providers d' = identity_providers d \<and>
              user_calls d' = user_calls d @ [CreateUser, InsertUser newId]
    | Some code \<Rightarrow>
        if code \<in> set (identity_providers d)
        then identity_providers d' = identity_providers d \<and>
             user_calls d' = user_calls d @ [CreateUser, ReadIdp code, InsertUser newId]
        else identity_providers d' = identity_providers d @ [code] \<and>
             user_calls d' = user_calls d @ [CreateUser, ReadIdp code, CreateIdp code, InsertUser newId])"
  by (auto simp: createUser_def ensureIdp_def readIdp_def createIdp_def called_def Let_def
        split: option.splits)

lemma with_userId_truncate: "user_fields.truncate (with_userId u f) = f"
  by (simp add: with_userId_def user_fields.truncate_def user_fields.extend_def user_row.fields_def
      user_fields.defs)

lemma updateUser_calls:
  "updateUser u data d = (r, d') \<Longrightarrow>
   \<exists>cs. user_calls d' = user_calls d @ UpdateUser u # ReadUser u # cs \<and>
        filter is_update cs = [] \<and> CreateUser \<notin> set cs"
  by (auto simp: updateUser_def readUser_def ensureIdp_def readIdp_def createIdp_def called_def
        Let_def is_update_def split: option.splits if_splits)

lemma updateUser_unchanged:
  assumes "find (\<lambda>r. userId' r = u) (users d) = Some old" "user_fields.truncate old = data"
  shows "updateUser u data d = (Inr old, d\<lparr>user_calls := user_calls d @ [UpdateUser u, ReadUser u]\<rparr>)"
  using assms by (simp add: updateUser_def readUser_def called_def)

lemma login_creates:
  assumes "find (\<lambda>r. identityId r = sub t) (users d) = None" "login newId t d = (r, d')"
  shows "filter is_update (new_calls d d') = [] \<and> filter (\<lambda>c. c = CreateUser) (new_calls d d') = [CreateUser]"
  using assms
  by (auto simp: login_def tokenToUser_def createUser_def ensureIdp_def readIdp_def createIdp_def
        called_def Let_def is_update_def new_calls_def split: option.splits)

lemma login_updates:
  assumes "find (\<lambda>r. identityId r = sub t) (users d) = Some old" "login newId t d = (r, d')"
  shows "filter is_update (new_calls d d') = [UpdateUser (userId' old)] \<and>
         filter (\<lambda>c. c = CreateUser) (new_calls d d') = []"
proof -
  let ?d1 = "called (FindByIdentityId (sub t)) d"
  from assms have u: "updateUser (userId' old) (tokenToUser t) ?d1 = (r, d')"
    by (simp add: login_def tokenToUser_def called_def Let_def)
  from updateUser_calls[OF u] obtain cs where
    cs: "user_calls d' = user_calls ?d1 @ UpdateUser (userId' old) # ReadUser (userId' old) # cs"
    "filter is_update cs = []" "CreateUser \<notin> set cs" by blast
  then have "new_calls d d' = FindByIdentityId (sub t) # UpdateUser (userId' old) # ReadUser (userId' old) # cs"
    by (simp add: new_calls_def called_def)
  with cs(2,3) show ?thesis by (auto simp: is_update_def filter_empty_conv)
qed

section \<open>The claims of the specification\<close>

text \<open>
  For a non-empty metadata set \<open>S\<close>, every prior state of the joins, with the caller's
  transaction or without: after a successful \<^verbatim>\<open>associateMetadata(v, S)\<close> the metadata ids
  joined to \<open>v\<close> are exactly the ids that \<^verbatim>\<open>createMetadata\<close> resolved \<open>S\<close> to, and the rows
  resolved carry exactly the pairs of \<open>S\<close>.
\<close>

lemma associateMetadata_nonempty_joined:
  assumes "S \<noteq> []"
    and "associateMetadata v (Some S) u etrx w = (Inr r, w')"
  shows "joined v (seen etrx w') = id' ` set (dbMetadata_of S (seen etrx w)) \<and>
         (\<lambda>M. (key M, value' M)) ` set (dbMetadata_of S (seen etrx w)) = set S"
proof -
  from assms(1) obtain m ms where S: "S = m # ms" by (cases S) auto
  from assms(2) obtain t w1 w2 where 1: "tables_of w1 t = seen etrx w"
    and 2: "associateMetadata v (Some S) u (Some t) w1 = (Inr r, w2)"
    and 3: "seen etrx w' = tables_of w2 t"
    by (rule associate_via_seen)
  from 2 S have "joined v (tables_of w2 t) = id' ` set (dbMetadata_of S (tables_of w1 t))"
    using associate_joined by simp
  with 1 3 show ?thesis by (simp add: dbMetadata_of_pairs)
qed

text \<open>
  Claim C1: after a successful \<^verbatim>\<open>associateMetadata(V, S)\<close> the joins of \<open>V\<close> are exactly the
  metadata resolved from \<open>S\<close>. The code departs from it, and from its own description
  (\<^verbatim>\<open>Makes the incoming list of metadata the definitive set associated with versionId\<close>), at
  two inputs. With the empty set, inside the caller's transaction, the call succeeds and \<open>v1\<close>
  is still joined to row 1: the whole reconciliation is under the guard
  \<^verbatim>\<open>if (metadata && metadata.length)\<close>. With the set \<open>b = 2\<close>, which is new, the call succeeds
  and \<open>v1\<close> is joined to the id 2, but the metadata row 2 is gone: the pruning runs before the
  new joins are inserted and deletes the rows \<^verbatim>\<open>createMetadata\<close> has just inserted, so the
  pair \<open>b = 2\<close> is not joined to \<open>v1\<close>. (Where the schema has a foreign key from the join to
  the metadata row, the insert of the join is rejected instead, and the call fails.)
\<close>

theorem associateMetadata_not_definitive:
  "fst (associateMetadata ''v1'' (Some []) None (Some 0) world1) = Inr [] \<and>
   joined ''v1'' (seen (Some 0) (snd (associateMetadata ''v1'' (Some []) None (Some 0) world1))) = {1} \<and>
   fst (associateMetadata ''v1'' (Some [(''b'', ''2'')]) None None world0) =
     Inr [\<lparr>versionId = ''v1'', metadataId = 2, createdBy = SYSTEM_USER\<rparr>] \<and>
   joined ''v1'' (durable (snd (associateMetadata ''v1'' (Some [(''b'', ''2'')]) None None world0))) = {2} \<and>
   metadata_table (durable (snd (associateMetadata ''v1'' (Some [(''b'', ''2'')]) None None world0))) =
     [\<lparr>id' = 1, key = ''a'', value' = ''1''\<rparr>]"
proof -
  have "fst (associateMetadata ''v1'' (Some []) None (Some 0) world1) = Inr [] \<and>
        joined ''v1'' (seen (Some 0) (snd (associateMetadata ''v1'' (Some []) None (Some 0) world1))) = {1}"
    by (simp add: associate_empty in_transaction_Some resolve_def joined_def seen_def tables_of_def
          world1_def db0_def filterVersionId_def)
  moreover have "fst (associateMetadata ''v1'' (Some [(''b'', ''2'')]) None None world0) =
        Inr [\<lparr>versionId = ''v1'', metadataId = 2, createdBy = SYSTEM_USER\<rparr>]"
    by code_simp
  moreover have "joined ''v1'' (durable (snd (associateMetadata ''v1'' (Some [(''b'', ''2'')]) None None world0))) = {2}"
    by code_simp
  moreover have "metadata_table (durable (snd (associateMetadata ''v1'' (Some [(''b'', ''2'')]) None None world0))) =
        [\<lparr>id' = 1, key = ''a'', value' = ''1''\<rparr>]"
    by code_simp
  ultimately show ?thesis by blast
qed

text \<open>
  Claim C2: \<^verbatim>\<open>associateMetadata(V, [])\<close> deletes all joins of \<open>V\<close> and then prunes. The code
  does neither: \<^verbatim>\<open>associateMetadata('v1', [])\<close> in its own transaction succeeds, the join of
  \<open>v1\<close> is still committed afterwards, and the trace holds the opening and the commit only:
  no delete, no pruning. The guard \<^verbatim>\<open>if (metadata && metadata.length)\<close> skips the
  reconciliation, against the function's own description (the incoming list is
  \<^verbatim>\<open>the definitive set\<close>, and \<^verbatim>\<open>always\<close>). It is the same defect as the first one under C1;
  lemma \<open>empty_noop\<close> has it for every version and every state.
\<close>

theorem associateMetadata_empty_keeps_joins:
  "fst (associateMetadata ''v1'' (Some []) None None world0) = Inr [] \<and>
   filterVersionId ''v1'' (version_metadata_table (durable (snd (associateMetadata ''v1'' (Some []) None None world0))))
     = [\<lparr>versionId = ''v1'', metadataId = 1, createdBy = ''u''\<rparr>] \<and>
   trace (snd (associateMetadata ''v1'' (Some []) None None world0)) = [Start 0, Commit 0]"
  by (simp add: associate_empty in_transaction_eq await_def try_catch_def resolve_def
        startTransaction_def commit_def attempt_def Let_def world0_def db0_def filterVersionId_def)

text \<open>
  Claim C3. A successful \<^verbatim>\<open>pruneOrphanedMetadata\<close> deletes exactly the metadata rows without
  a join and no others (it returns their number and leaves the joins alone), so that afterwards
  every metadata row has a join. And a metadata row \<open>M\<close> joined to another version (join \<open>j\<close>)
  survives any successful \<^verbatim>\<open>associateMetadata\<close> on version \<open>v1\<close>, whatever that call
  dissociates from \<open>v1\<close>: \<open>M\<close> is still there and \<open>j\<close> still joins it.
\<close>

theorem pruning_exact_and_sharing:
  assumes "pruneOrphanedMetadata etrx w = (Inr n, w')"
    and "associateMetadata v1 md u etrx2 w2 = (Inr r, w2')"
    and "M \<in> set (metadata_table (seen etrx2 w2))"
    and "j \<in> set (version_metadata_table (seen etrx2 w2))" "metadataId j = id' M" "versionId j \<noteq> v1"
  shows "metadata_table (seen etrx w') = filter (referenced (seen etrx w)) (metadata_table (seen etrx w)) \<and>
         version_metadata_table (seen etrx w') = version_metadata_table (seen etrx w) \<and>
         n = length (filter (\<lambda>m. \<not> referenced (seen etrx w) m) (metadata_table (seen etrx w))) \<and>
         list_all (referenced (seen etrx w')) (metadata_table (seen etrx w')) \<and>
         M \<in> set (metadata_table (seen etrx2 w2')) \<and> j \<in> set (version_metadata_table (seen etrx2 w2'))"
  using prune_exact[OF assms(1)] associate_keeps_shared[OF assms(2-6)] by blast

text \<open>
  Witness for C3: pruning deletes the one row without a join; and dissociating \<open>a = 1\<close> from
  \<open>v1\<close> (which prunes) leaves the row and its join to \<open>v2\<close>.
\<close>

theorem pruning_exact_and_sharing_witness:
  "fst (pruneOrphanedMetadata None world_orphan) = Inr 1 \<and>
   metadata_table (durable (snd (pruneOrphanedMetadata None world_orphan))) = [\<lparr>id' = 1, key = ''a'', value' = ''1''\<rparr>] \<and>
   fst (associateMetadata ''v1'' (Some [(''b'', ''2'')]) None None world0) =
     Inr [\<lparr>versionId = ''v1'', metadataId = 2, createdBy = SYSTEM_USER\<rparr>] \<and>
   \<lparr>id' = 1, key = ''a'', value' = ''1''\<rparr>
     \<in> set (metadata_table (durable (snd (associateMetadata ''v1'' (Some [(''b'', ''2'')]) None None world0)))) \<and>
   \<lparr>versionId = ''v2'', metadataId = 1, createdBy = ''u''\<rparr>
     \<in> set (version_metadata_table (durable (snd (associateMetadata ''v1'' (Some [(''b'', ''2'')]) None None world0))))"
proof -
  let ?p = "pruneOrphanedMetadata None world_orphan"
  let ?a = "associateMetadata ''v1'' (Some [(''b'', ''2'')]) None None world0"
  let ?M = "\<lparr>id' = 1, key = ''a'', value' = ''1''\<rparr>"
  let ?j = "\<lparr>versionId = ''v2'', metadataId = 1, createdBy = ''u''\<rparr>"
  have p: "fst ?p = Inr 1" by code_simp
  then have peq: "?p = (Inr 1, snd ?p)" by (metis prod.collapse)
  have a: "fst ?a = Inr [\<lparr>versionId = ''v1'', metadataId = 2, createdBy = SYSTEM_USER\<rparr>]" by code_simp
  then have aeq: "?a = (Inr [\<lparr>versionId = ''v1'', metadataId = 2, createdBy = SYSTEM_USER\<rparr>], snd ?a)"
    by (metis prod.collapse)
  have M: "?M \<in> set (metadata_table (seen None world0))"
    by (simp add: seen_def world0_def db0_def)
  have j: "?j \<in> set (version_metadata_table (seen None world0))" "metadataId ?j = id' ?M" "versionId ?j \<noteq> ''v1''"
    by (simp_all add: seen_def world0_def db0_def)
  from pruning_exact_and_sharing[OF peq aeq M j] p a show ?thesis
    by (simp add: seen_def world_orphan_def db_orphan_def referenced_def)
qed

text \<open>
  Claim C4, as amended. For every object, whatever order the database gives to rows with equal
  sort keys, the version joined to the object is a version of the object that is no delete
  marker and whose \<^verbatim>\<open>createdAt\<close> is greatest among these (and there is none exactly when
  the object has no such version). When several such versions share the greatest
  \<^verbatim>\<open>createdAt\<close>, the query names no further sort key: any of them may be the one selected.
\<close>

theorem current_version_latest:
  assumes "orderBy_result vs xs"
  shows "version_graph xs oid = [] \<and> \<not> list_ex (\<lambda>v. objectId v = oid \<and> \<not> deleteMarker v) vs \<or>
         (\<exists>v. version_graph xs oid = [v] \<and> v \<in> set vs \<and> objectId v = oid \<and> \<not> deleteMarker v \<and>
              (\<forall>w \<in> set vs. objectId w = oid \<and> \<not> deleteMarker w \<longrightarrow> createdAt w \<le> createdAt v))"
  using assms by (rule current_version_cases)

text \<open>Witness for C4: a version and a later delete marker.\<close>

theorem current_version_latest_witness:
  "orderBy_result [vA, vDel] [vA] \<and> version_graph [vA] ''o1'' = [vA]"
proof -
  have o: "orderBy_result [vA, vDel] [vA]"
    by (simp add: orderBy_result_def vA_def vDel_def)
  from current_version_latest[OF o, of "''o1''"] o show ?thesis
    by (auto simp: version_graph_def vA_def vDel_def)
qed

text \<open>
  Counterexample to C4 as stated (a tie is broken by insertion order, the result is
  deterministic): two versions of one object with the same \<^verbatim>\<open>createdAt\<close>; both orders are
  results of the \<^verbatim>\<open>ORDER BY\<close>, and they select different versions.
\<close>

theorem current_version_tie_counterexample:
  "orderBy_result [vA, vB] [vA, vB] \<and> orderBy_result [vA, vB] [vB, vA] \<and>
   version_graph [vA, vB] ''o1'' = [vA] \<and> version_graph [vB, vA] ''o1'' = [vB] \<and> vA \<noteq> vB"
  by (simp add: orderBy_result_def version_order_def version_graph_def vA_def vB_def)

text \<open>
  The discipline of the optional transaction, where the database accepts the \<^verbatim>\<open>COMMIT\<close>.
  Given the caller's transaction, \<^verbatim>\<open>associateMetadata\<close>, \<^verbatim>\<open>createMetadata\<close> and
  \<^verbatim>\<open>pruneOrphanedMetadata\<close> neither commit it nor roll it back, on success and on failure
  alike: they only send statements on it, they resolve only when no statement was rejected,
  and they reject with the error of the rejected statement. Given none they open one; they
  resolve only when nothing was rejected, and then they have committed it; when an attempt was
  rejected they reject with its error, the committed tables are unchanged and the
  transaction, if it could be opened, is rolled back before the error is propagated.
\<close>

lemma transaction_discipline:
  "joins_caller_transaction (associateMetadata v md u) \<and> owns_local_transaction (associateMetadata v md u) \<and>
   joins_caller_transaction (createMetadata kvs) \<and> owns_local_transaction (createMetadata kvs) \<and>
   joins_caller_transaction pruneOrphanedMetadata \<and> owns_local_transaction pruneOrphanedMetadata"
proof (intro conjI)
  show "joins_caller_transaction (associateMetadata v md u)"
    by (rule caller_transaction) (rule frame_associate_body, rule honest_associate_body)
  show "owns_local_transaction (associateMetadata v md u)"
    by (rule local_transaction[OF _ frame_associate_body honest_associate_body])
       (simp add: associateMetadata_def)
  show "joins_caller_transaction (createMetadata kvs)"
    by (rule caller_transaction) (rule frame_createMetadata, rule honest_createMetadata)
  show "owns_local_transaction (createMetadata kvs)"
    by (rule local_transaction[OF _ frame_createMetadata honest_createMetadata])
       (simp add: createMetadata_def)
  show "joins_caller_transaction pruneOrphanedMetadata"
    by (rule caller_transaction) (rule frame_pruneOrphanedMetadata, rule honest_pruneOrphanedMetadata)
  show "owns_local_transaction pruneOrphanedMetadata"
    by (rule local_transaction[OF _ frame_pruneOrphanedMetadata honest_pruneOrphanedMetadata])
       (simp add: pruneOrphanedMetadata_def)
qed

text \<open>
  A rejected statement, here the fourth attempt of the call: the error is propagated, the
  transaction is rolled back, and the committed tables are those from before the call.
\<close>

lemma rejected_statement_rolled_back:
  "fst (associateMetadata ''v1'' (Some [(''b'', ''2'')]) None None world_fault) = Inl DbError \<and>
   durable (snd (associateMetadata ''v1'' (Some [(''b'', ''2'')]) None None world_fault)) = db0 \<and>
   last (trace (snd (associateMetadata ''v1'' (Some [(''b'', ''2'')]) None None world_fault))) = Rollback 0 \<and>
   map_option status (transactions (snd (associateMetadata ''v1'' (Some [(''b'', ''2'')]) None None world_fault)) 0) =
     Some RolledBack"
proof -
  let ?run = "associateMetadata ''v1'' (Some [(''b'', ''2'')]) None None world_fault"
  have "fst ?run = Inl DbError" by code_simp
  moreover have "durable (snd ?run) = db0" by code_simp
  moreover have "last (trace (snd ?run)) = Rollback 0" by code_simp
  moreover have "map_option status (transactions (snd ?run) 0) = Some RolledBack" by code_simp
  ultimately show ?thesis by blast
qed

text \<open>
  Claim C5: without the caller's transaction the operation rolls its own transaction back on
  any failure and propagates the error, so that nothing partial persists. The code departs
  from it, and from its own description (\<^verbatim>\<open>@throws The error encountered upon db transaction
  failure\<close>), when the failure is that of the \<^verbatim>\<open>COMMIT\<close>. \<^verbatim>\<open>associateMetadata\<close> without
  \<^verbatim>\<open>etrx\<close> is its statements inside the frame; in the same frame with the \<^verbatim>\<open>COMMIT\<close>
  rejected, \<^verbatim>\<open>await trx.commit()\<close> resolves, so the handler does not run: the call resolves
  to its joins as if they were stored, no rollback is sent, no error is propagated, and the
  committed tables are those from before the call.
\<close>

theorem rejected_commit_not_propagated:
  "associateMetadata ''v1'' (Some [(''b'', ''2'')]) None None =
     transaction_frame commit None (\<lambda>trx. associateMetadata ''v1'' (Some [(''b'', ''2'')]) None (Some trx)) \<and>
   fst (transaction_frame commit_rejected None
          (\<lambda>trx. associateMetadata ''v1'' (Some [(''b'', ''2'')]) None (Some trx)) world0) =
     Inr [\<lparr>versionId = ''v1'', metadataId = 2, createdBy = SYSTEM_USER\<rparr>] \<and>
   durable (snd (transaction_frame commit_rejected None
          (\<lambda>trx. associateMetadata ''v1'' (Some [(''b'', ''2'')]) None (Some trx)) world0)) = db0 \<and>
   Rollback 0 \<notin> set (trace (snd (transaction_frame commit_rejected None
          (\<lambda>trx. associateMetadata ''v1'' (Some [(''b'', ''2'')]) None (Some trx)) world0))) \<and>
   last (trace (snd (transaction_frame commit_rejected None
          (\<lambda>trx. associateMetadata ''v1'' (Some [(''b'', ''2'')]) None (Some trx)) world0))) = Commit 0 \<and>
   map_option status (transactions (snd (transaction_frame commit_rejected None
          (\<lambda>trx. associateMetadata ''v1'' (Some [(''b'', ''2'')]) None (Some trx)) world0)) 0) =
     Some CommitRejected"
proof -
  let ?run = "transaction_frame commit_rejected None
          (\<lambda>trx. associateMetadata ''v1'' (Some [(''b'', ''2'')]) None (Some trx)) world0"
  have "associateMetadata ''v1'' (Some [(''b'', ''2'')]) None None =
     transaction_frame commit None (\<lambda>trx. associateMetadata ''v1'' (Some [(''b'', ''2'')]) None (Some trx))"
    by (rule associateMetadata_frame)
  moreover have "fst ?run = Inr [\<lparr>versionId = ''v1'', metadataId = 2, createdBy = SYSTEM_USER\<rparr>]"
    by code_simp
  moreover have "durable (snd ?run) = db0" by code_simp
  moreover have "Rollback 0 \<notin> set (trace (snd ?run))" by code_simp
  moreover have "last (trace (snd ?run)) = Commit 0" by code_simp
  moreover have "map_option status (transactions (snd ?run) 0) = Some CommitRejected" by code_simp
  ultimately show ?thesis by blast
qed

text \<open>
  Claim C6. When \<^verbatim>\<open>objectPerms\<close> is true: a query without \<^verbatim>\<open>userId\<close> is rejected with a
  validation error; an accepted query carries exactly one \<^verbatim>\<open>userId\<close>, a single string that
  passes the uuid test; and such a \<^verbatim>\<open>userId\<close> is accepted when the other keys are valid.
  When \<^verbatim>\<open>objectPerms\<close> is not true, \<^verbatim>\<open>userId\<close> is optional: a query without it is
  accepted when the other keys are valid.
\<close>

theorem searchPermissions_userId_required:
  "(objectPerms_is_true c q \<and> map_of q ''userId'' = None \<longrightarrow>
      (\<exists>k. searchPermissions_query c q = Inl (ValidationError k))) \<and>
   (objectPerms_is_true c q \<and> searchPermissions_query c q = Inr () \<longrightarrow>
      (\<exists>s. map_of q ''userId'' = Some (Single s) \<and> uuidv4 c s)) \<and>
   (objectPerms_is_true c q \<and> other_keys_valid c q \<and> (\<exists>s. map_of q ''userId'' = Some (Single s) \<and> uuidv4 c s) \<longrightarrow>
      searchPermissions_query c q = Inr ()) \<and>
   (\<not> objectPerms_is_true c q \<and> other_keys_valid c q \<and> map_of q ''userId'' = None \<longrightarrow>
      searchPermissions_query c q = Inr ())"
  by (rule searchPermissions_userId)

text \<open>Witness for C6: \<^verbatim>\<open>objectPerms=true\<close> without and with a user id, and a query
  with neither \<^verbatim>\<open>objectPerms\<close> nor a user id.\<close>

theorem searchPermissions_userId_required_witness:
  "(\<exists>k. searchPermissions_query common0 [(''objectPerms'', Single ''true'')] = Inl (ValidationError k)) \<and>
   searchPermissions_query common0 [(''objectPerms'', Single ''true''), (''userId'', Single uuid1)] = Inr () \<and>
   searchPermissions_query common0 [(''permCode'', Single ''READ'')] = Inr ()"
proof -
  let ?q1 = "[(''objectPerms'', Single ''true'')]"
  let ?q2 = "[(''objectPerms'', Single ''true''), (''userId'', Single uuid1)]"
  let ?q3 = "[(''permCode'', Single ''READ'')]"
  have 1: "objectPerms_is_true common0 ?q1 \<and> map_of ?q1 ''userId'' = None"
    by (simp add: objectPerms_is_true_def common0_def)
  have "map_of ?q2 ''userId'' = Some (Single uuid1) \<and> uuidv4 common0 uuid1"
    by (simp add: common0_def uuid1_def)
  then have "\<exists>s. map_of ?q2 ''userId'' = Some (Single s) \<and> uuidv4 common0 s" by blast
  moreover have "objectPerms_is_true common0 ?q2 \<and> other_keys_valid common0 ?q2"
    by (auto simp: objectPerms_is_true_def other_keys_valid_def optional_def common0_def)
  ultimately have 2: "objectPerms_is_true common0 ?q2 \<and> other_keys_valid common0 ?q2 \<and>
           (\<exists>s. map_of ?q2 ''userId'' = Some (Single s) \<and> uuidv4 common0 s)" by blast
  have 3: "\<not> objectPerms_is_true common0 ?q3 \<and> other_keys_valid common0 ?q3 \<and> map_of ?q3 ''userId'' = None"
    by (auto simp: objectPerms_is_true_def other_keys_valid_def optional_def common0_def)
  from searchPermissions_userId_required[of common0 ?q1] 1
  have a: "\<exists>k. searchPermissions_query common0 ?q1 = Inl (ValidationError k)" by blast
  from searchPermissions_userId_required[of common0 ?q2] 2
  have b: "searchPermissions_query common0 ?q2 = Inr ()" by blast
  from searchPermissions_userId_required[of common0 ?q3] 3
  have c: "searchPermissions_query common0 ?q3 = Inr ()" by blast
  from a b c show ?thesis by blast
qed



text \<open>
  Claim C8. \<^verbatim>\<open>createUser\<close> always inserts the user row. For a user whose idp code has no
  IdentityProvider row it looks the code up, creates exactly one IdentityProvider row, and
  only then inserts the user; when the row exists it creates none; for a user without idp
  it makes no IdentityProvider call at all.
\<close>

theorem createUser_identity_provider:
  assumes "createUser newId data d = (row, d')"
  shows "users d' = users d @ [with_userId newId data] \<and>
   (case idp data of
      None \<Rightarrow> identity_providers d' = identity_providers d \<and>
              user_calls d' = user_calls d @ [CreateUser, InsertUser newId]
    | Some code \<Rightarrow>
        if code \<in> set (identity_providers d)
        then identity_providers d' = identity_providers d \<and>
             user_calls d' = user_calls d @ [CreateUser, ReadIdp code, InsertUser newId]
        else identity_providers d' = identity_providers d @ [code] \<and>
             user_calls d' = user_calls d @ [CreateUser, ReadIdp code, CreateIdp code, InsertUser newId])"
  using assms by (rule createUser_idp)

text \<open>Witness for C8: the user of the unit test, idp \<^verbatim>\<open>idir\<close>, in an empty directory.\<close>

theorem createUser_identity_provider_witness:
  "identity_providers (snd (createUser ''u1'' jsmith empty_directory)) = [''idir''] \<and>
   user_calls (snd (createUser ''u1'' jsmith empty_directory)) =
     [CreateUser, ReadIdp ''idir'', CreateIdp ''idir'', InsertUser ''u1'']"
proof -
  let ?c = "createUser ''u1'' jsmith empty_directory"
  have "?c = (fst ?c, snd ?c)" by simp
  from createUser_identity_provider[OF this] show ?thesis
    by (simp add: jsmith_def empty_directory_def)
qed

text \<open>
  Claim C9. \<^verbatim>\<open>login\<close> looks the user up by \<^verbatim>\<open>identityId\<close>: when none matches it calls
  \<^verbatim>\<open>createUser\<close> once and never \<^verbatim>\<open>updateUser\<close>; when one matches it calls \<^verbatim>\<open>updateUser\<close>
  for that user once and never \<^verbatim>\<open>createUser\<close>. \<^verbatim>\<open>updateUser\<close> with fields identical to the
  stored user writes nothing: it reads the user and returns it.
\<close>

theorem login_create_or_update:
  "(find (\<lambda>r. identityId r = sub t) (users d) = None \<and> login newId t d = (r, d') \<longrightarrow>
      filter is_update (new_calls d d') = [] \<and>
      filter (\<lambda>c. c = CreateUser) (new_calls d d') = [CreateUser]) \<and>
   (find (\<lambda>r. identityId r = sub t) (users d) = Some old \<and> login newId t d = (r, d') \<longrightarrow>
      filter is_update (new_calls d d') = [UpdateUser (userId' old)] \<and>
      filter (\<lambda>c. c = CreateUser) (new_calls d d') = []) \<and>
   (find (\<lambda>r. userId' r = u) (users d) = Some old \<and> user_fields.truncate old = data \<longrightarrow>
      updateUser u data d = (Inr old, d\<lparr>user_calls := user_calls d @ [UpdateUser u, ReadUser u]\<rparr>))"
  using login_creates login_updates updateUser_unchanged by blast

text \<open>Witness for C9: a first login, and a second one with unchanged claims.\<close>

theorem login_create_or_update_witness:
  "new_calls empty_directory (snd (login ''u1'' jsmith_token empty_directory)) =
     [FindByIdentityId (Some ''0''), CreateUser, ReadIdp ''idir'', CreateIdp ''idir'', InsertUser ''u1''] \<and>
   filter is_update (new_calls jsmith_directory (snd (login ''u2'' jsmith_token jsmith_directory))) = [UpdateUser ''u1''] \<and>
   snd (login ''u2'' jsmith_token jsmith_directory) =
     jsmith_directory\<lparr>user_calls := [FindByIdentityId (Some ''0''), UpdateUser ''u1'', ReadUser ''u1'']\<rparr>"
proof -
  let ?l = "login ''u2'' jsmith_token jsmith_directory"
  have f: "find (\<lambda>r. identityId r = sub jsmith_token) (users jsmith_directory) = Some jsmith_row"
    by (simp add: jsmith_directory_def jsmith_row_def jsmith_token_def jsmith_def with_userId_def
          user_fields.extend_def user_row.fields_def)
  have "?l = (fst ?l, snd ?l)" by simp
  with f login_create_or_update[of jsmith_token jsmith_directory "''u2''" "fst ?l" "snd ?l" jsmith_row]
  have "filter is_update (new_calls jsmith_directory (snd ?l)) = [UpdateUser (userId' jsmith_row)]"
    by blast
  then have 1: "filter is_update (new_calls jsmith_directory (snd ?l)) = [UpdateUser ''u1'']"
    by (simp add: jsmith_row_def with_userId_def user_fields.extend_def user_row.fields_def)
  have 2: "new_calls empty_directory (snd (login ''u1'' jsmith_token empty_directory)) =
     [FindByIdentityId (Some ''0''), CreateUser, ReadIdp ''idir'', CreateIdp ''idir'', InsertUser ''u1'']"
    by (simp add: login_def tokenToUser_def createUser_def ensureIdp_def readIdp_def createIdp_def
          called_def Let_def new_calls_def empty_directory_def jsmith_token_def)
  have 3: "snd ?l = jsmith_directory\<lparr>user_calls := [FindByIdentityId (Some ''0''), UpdateUser ''u1'', ReadUser ''u1'']\<rparr>"
    by (simp add: login_def tokenToUser_def updateUser_def readUser_def called_def Let_def
          jsmith_directory_def jsmith_row_def jsmith_token_def jsmith_def with_userId_def
          user_fields.extend_def user_row.fields_def user_fields.truncate_def)
  from 1 2 3 show ?thesis by simp
qed

text \<open>
  Claim C10. Whenever the filters of \<^verbatim>\<open>fetchMetadataForObject\<close> select an object all of whose
  versions are delete markers (or that has no version), the call throws a \<^verbatim>\<open>TypeError\<close>: the
  result shaping reads \<^verbatim>\<open>row.version[0].metadata\<close> on an empty \<^verbatim>\<open>row.version\<close>. It does not
  return the object with an empty metadata list.
\<close>

theorem fetchMetadataForObject_only_delete_markers:
  assumes "orderBy_result (versions c) xs"
    and "ob \<in> set (objects c)" "filterIds mods (objId ps) ob" "hasPermission mods (userId ps) ob"
    and "\<forall>v \<in> set (versions c). objectId v = object_id ob \<longrightarrow> deleteMarker v"
  shows "fetchMetadataForObject mods ps c xs = Inl TypeError"
  using assms by (rule fetch_TypeError)

text \<open>Witness for C10: an object whose only version is a delete marker.\<close>

theorem fetchMetadataForObject_only_delete_markers_witness:
  "orderBy_result (versions deleted_catalog) [] \<and>
   fetchMetadataForObject all_modifiers \<lparr>objId = [''o1''], metadata = None, userId = None\<rparr> deleted_catalog [] = Inl TypeError"
proof -
  let ?ps = "\<lparr>objId = [''o1''], metadata = None, userId = None\<rparr>"
  have o: "orderBy_result (versions deleted_catalog) []"
    by (simp add: orderBy_result_def deleted_catalog_def vDel_def)
  have 1: "o1 \<in> set (objects deleted_catalog)" by (simp add: deleted_catalog_def)
  have 2: "filterIds all_modifiers (objId ?ps) o1" by (simp add: all_modifiers_def o1_def)
  have 3: "hasPermission all_modifiers (userId ?ps) o1" by (simp add: all_modifiers_def)
  have 4: "\<forall>v \<in> set (versions deleted_catalog). objectId v = object_id o1 \<longrightarrow> deleteMarker v"
    by (simp add: deleted_catalog_def vDel_def)
  from fetchMetadataForObject_only_delete_markers[OF o 1 2 3 4] o show ?thesis by simp
qed

end
